theory Spec2Isabelle
  imports Complex_Main "HOL-Library.Word"
begin

unbundle bit_operations_syntax

section \<open>Bytes, errors and big-endian integers\<close>

type_synonym u8 = "8 word"
type_synonym u32 = "32 word"
type_synonym u64 = "64 word"

text \<open>
  Every \<^verbatim>\<open>errors.New\<close> and every \<^verbatim>\<open>panic\<close> of \<^verbatim>\<open>bc5.go\<close> is a constructor. The run-time
  panics of Go on a slice expression or an index out of range are constructors as well.
\<close>

datatype error =
    ImageMustBeSquare          \<comment> \<open>\<^verbatim>\<open>errors.New("image must be square")\<close>\<close>
  | SizeMustBeMultipleOf4      \<comment> \<open>\<^verbatim>\<open>errors.New("size must be a multiple of 4")\<close>\<close>
  | NotEnoughData              \<comment> \<open>\<^verbatim>\<open>errors.New("not enough data for BC5")\<close>\<close>
  | InvalidFileSignature       \<comment> \<open>\<^verbatim>\<open>errors.New("invalid file signature")\<close>\<close>
  | NoImageDataFound           \<comment> \<open>\<^verbatim>\<open>errors.New("no image data found")\<close>\<close>
  | FailedToWriteHeader        \<comment> \<open>\<^verbatim>\<open>errors.New("failed to write header")\<close>\<close>
  | FailedToWriteImageData     \<comment> \<open>\<^verbatim>\<open>errors.New("failed to write image data")\<close>\<close>
  | InvalidBlockSize           \<comment> \<open>\<^verbatim>\<open>panic("invalid block size")\<close>\<close>
  | InvalidIndexArraySize      \<comment> \<open>\<^verbatim>\<open>panic("invalid index array size")\<close>\<close>
  | SliceBoundsOutOfRange      \<comment> \<open>run-time panic of \<^verbatim>\<open>s[lo:hi]\<close>\<close>
  | IndexOutOfRange            \<comment> \<open>run-time panic of \<^verbatim>\<open>a[i]\<close>\<close>
  | NilPointerDereference      \<comment> \<open>run-time panic of a method call on a nil \<^verbatim>\<open>*image.RGBA\<close>\<close>
  | MakeSliceLenOutOfRange     \<comment> \<open>run-time panic of \<^verbatim>\<open>make\<close> with a negative length\<close>
  | IOError nat                \<comment> \<open>an error handed back by a reader or a writer\<close>

text \<open>\<^verbatim>\<open>binary.BigEndian.PutUint64\<close>, \<^verbatim>\<open>Uint64\<close>, \<^verbatim>\<open>PutUint32\<close> and \<^verbatim>\<open>Uint32\<close>.\<close>

definition PutUint64 :: "u64 \<Rightarrow> u8 list" where
  "PutUint64 v = map (\<lambda>k. ucast (drop_bit (8 * (7 - k)) v)) [0..<8]"

definition Uint64 :: "u8 list \<Rightarrow> u64" where
  "Uint64 b = foldl (\<lambda>acc x. push_bit 8 acc OR ucast x) 0 (take 8 b)"

definition PutUint32 :: "u32 \<Rightarrow> u8 list" where
  "PutUint32 v = map (\<lambda>k. ucast (drop_bit (8 * (3 - k)) v)) [0..<4]"

definition Uint32 :: "u8 list \<Rightarrow> u32" where
  "Uint32 b = foldl (\<lambda>acc x. push_bit 8 acc OR ucast x) 0 (take 4 b)"

section \<open>Index packing and unpacking\<close>

text \<open>
  The accumulation of \<^verbatim>\<open>compressBlock\<close>, one channel of it:
  \<^verbatim>\<open>rIndexU = (rIndexU << 3) | uint64(nearest(palR, c.R))\<close> for the pixels in scan order.
\<close>

definition accumulateIndices :: "u8 list \<Rightarrow> u64" where
  "accumulateIndices ixs = foldl (\<lambda>acc ix. push_bit 3 acc OR ucast ix) 0 ixs"

text \<open>
  The emission: \<^verbatim>\<open>binary.BigEndian.PutUint64(rIxBytes, rIndexU)\<close> and then
  \<^verbatim>\<open>copy(blockBytes[2:8], rIxBytes[2:8])\<close>, the low 48 bits as 6 bytes.
\<close>

definition packIndices :: "u8 list \<Rightarrow> u8 list" where
  "packIndices ixs = drop 2 (PutUint64 (accumulateIndices ixs))"

text \<open>\<^verbatim>\<open>getIndices\<close>: 16 three-bit groups, group \<open>i\<close> read from bit \<open>3 * i\<close>.\<close>

definition getIndices :: "u8 list \<Rightarrow> error + int list" where
  "getIndices b =
     (if length b \<noteq> 6 then Inl InvalidIndexArraySize
      else let data = Uint64 ([0, 0] @ b)
           in Inr (map (\<lambda>i. uint (drop_bit (i * 3) data AND 7)) [0..<16]))"

section \<open>Floating point\<close>

text \<open>
  A finite floating-point value is a dyadic rational \<open>m * 2 ^ e\<close>, kept in canonical form:
  \<open>m\<close> is odd, or \<open>m = 0\<close> and \<open>e = 0\<close>, so that two values are equal when their
  representations are. Every operation computes the exact result and rounds it once to the
  nearest representable value, ties to even (IEEE 754 binary64: 53 bits of precision and
  subnormals from \<open>2 ^ - 1074\<close>; binary32: 24 bits and \<open>2 ^ - 149\<close>), each operation
  rounded on its own. Infinities and NaN are left out: the values of the codec come from
  bytes and stay below \<open>2 ^ 11\<close>, and every divisor is a non-zero literal.
\<close>

datatype dyadic = Dyadic (mantissa: int) (exponent: int)

type_synonym float64 = dyadic
type_synonym float32 = dyadic

function canon :: "int \<Rightarrow> int \<Rightarrow> dyadic" where
  "canon m e =
     (if m = 0 then Dyadic 0 0
      else if even m then canon (m div 2) (e + 1)
      else Dyadic m e)"
  by pat_completeness auto
termination
  by (relation "measure (\<lambda>(m, e). nat \<bar>m\<bar>)") auto

declare canon.simps [simp del]

text \<open>\<open>shl m k\<close> is \<open>m * 2 ^ k\<close> for \<open>0 \<le> k\<close>, and \<open>m\<close> for a negative \<open>k\<close>.\<close>

function shl :: "int \<Rightarrow> int \<Rightarrow> int" where
  "shl m k = (if k \<le> 0 then m else shl (2 * m) (k - 1))"
  by pat_completeness auto
termination
  by (relation "measure (\<lambda>(m, k). nat k)") auto

declare shl.simps [simp del]

function bitlen :: "int \<Rightarrow> int" where
  "bitlen a = (if a \<le> 0 then 0 else 1 + bitlen (a div 2))"
  by pat_completeness auto
termination
  by (relation "measure nat") auto

declare bitlen.simps [simp del]

text \<open>For \<open>0 < n\<close> and \<open>0 < d\<close>, the \<open>t\<close> with \<open>2 ^ t \<le> n / d < 2 ^ (t + 1)\<close>.\<close>

definition floor_log2 :: "int \<Rightarrow> int \<Rightarrow> int" where
  "floor_log2 n d =
     (let t = bitlen n - bitlen d
      in if shl d t \<le> shl n (- t) then t else t - 1)"

text \<open>
  \<open>round_ratio p emin n d e\<close> rounds the exact value \<open>n / d * 2 ^ e\<close> (with \<open>0 < d\<close>) to
  \<open>p\<close> bits of precision, the unit in the last place no smaller than \<open>2 ^ emin\<close>: the
  value is scaled by the unit \<open>2 ^ u\<close>, the quotient \<open>q\<close> is its floor, and the remainder
  \<open>r\<close> decides between \<open>q\<close> and \<open>q + 1\<close>, a tie going to the even one.
\<close>

definition round_ratio :: "nat \<Rightarrow> int \<Rightarrow> int \<Rightarrow> int \<Rightarrow> int \<Rightarrow> dyadic" where
  "round_ratio p emin n d e =
     (if n = 0 then Dyadic 0 0
      else let u = max (floor_log2 \<bar>n\<bar> d + e - (int p - 1)) emin;
               num = shl n (e - u);
               den = shl d (u - e);
               q = num div den;
               r = num mod den
           in canon (if 2 * r < den then q
                     else if den < 2 * r then q + 1
                     else if even q then q else q + 1) u)"

definition round64 :: "int \<Rightarrow> int \<Rightarrow> int \<Rightarrow> float64" where
  "round64 = round_ratio 53 (- 1074)"

definition round32 :: "int \<Rightarrow> int \<Rightarrow> int \<Rightarrow> float32" where
  "round32 = round_ratio 24 (- 149)"

text \<open>The value a representation denotes.\<close>

definition valof :: "dyadic \<Rightarrow> rat" where
  "valof x = of_int (mantissa x) * 2 powi (exponent x)"

text \<open>A conversion \<^verbatim>\<open>float64(v)\<close> of a byte, and a small integer literal, are exact.\<close>

definition float64_of_int :: "int \<Rightarrow> float64" where
  "float64_of_int n = round64 n 1 0"

definition float32_of_int :: "int \<Rightarrow> float32" where
  "float32_of_int n = round32 n 1 0"

definition f64_add :: "float64 \<Rightarrow> float64 \<Rightarrow> float64" where
  "f64_add a b =
     (let e0 = min (exponent a) (exponent b)
      in round64 (shl (mantissa a) (exponent a - e0) + shl (mantissa b) (exponent b - e0)) 1 e0)"

definition f64_sub :: "float64 \<Rightarrow> float64 \<Rightarrow> float64" where
  "f64_sub a b =
     (let e0 = min (exponent a) (exponent b)
      in round64 (shl (mantissa a) (exponent a - e0) - shl (mantissa b) (exponent b - e0)) 1 e0)"

definition f64_mul :: "float64 \<Rightarrow> float64 \<Rightarrow> float64" where
  "f64_mul a b = round64 (mantissa a * mantissa b) 1 (exponent a + exponent b)"

text \<open>Division; the divisor is not zero (Go gives an infinity or NaN there).\<close>

definition f64_div :: "float64 \<Rightarrow> float64 \<Rightarrow> float64" where
  "f64_div a b =
     (if 0 < mantissa b
      then round64 (mantissa a) (mantissa b) (exponent a - exponent b)
      else round64 (- mantissa a) (- mantissa b) (exponent a - exponent b))"

definition f32_div :: "float32 \<Rightarrow> float32 \<Rightarrow> float32" where
  "f32_div a b =
     (if 0 < mantissa b
      then round32 (mantissa a) (mantissa b) (exponent a - exponent b)
      else round32 (- mantissa a) (- mantissa b) (exponent a - exponent b))"

definition f_less :: "dyadic \<Rightarrow> dyadic \<Rightarrow> bool" where
  "f_less a b =
     (let e0 = min (exponent a) (exponent b)
      in shl (mantissa a) (exponent a - e0) < shl (mantissa b) (exponent b - e0))"

text \<open>\<^verbatim>\<open>math.Abs\<close>.\<close>

definition f_abs :: "dyadic \<Rightarrow> dyadic" where
  "f_abs a = Dyadic \<bar>mantissa a\<bar> (exponent a)"

text \<open>Go's conversion of a float to an integer type drops the fraction (towards zero).\<close>

definition truncate :: "dyadic \<Rightarrow> int" where
  "truncate a =
     (if 0 \<le> exponent a then shl (mantissa a) (exponent a)
      else sgn (mantissa a) * (\<bar>mantissa a\<bar> div shl 1 (- exponent a)))"

text \<open>\<^verbatim>\<open>int(float32(v)/4)\<close>, the block coordinate of \<^verbatim>\<open>At\<close> and \<^verbatim>\<open>Decompress\<close>.\<close>

definition int_float32_div4 :: "int \<Rightarrow> int" where
  "int_float32_div4 v = truncate (f32_div (float32_of_int v) (float32_of_int 4))"

text \<open>Go's integer division and remainder truncate towards zero.\<close>

definition go_div :: "int \<Rightarrow> int \<Rightarrow> int" where
  "go_div a b = sgn a * sgn b * (\<bar>a\<bar> div \<bar>b\<bar>)"

definition go_mod :: "int \<Rightarrow> int \<Rightarrow> int" where
  "go_mod a b = a - b * go_div a b"

section \<open>Normalised values and the palette\<close>

text \<open>\<^verbatim>\<open>normalize\<close> (named \<open>normalize_byte\<close> here): \<^verbatim>\<open>float64(v) / 255\<close>.\<close>

definition normalize_byte :: "u8 \<Rightarrow> float64" where
  "normalize_byte v = f64_div (float64_of_int (uint v)) (float64_of_int 255)"

text \<open>
  \<^verbatim>\<open>denormalize\<close>: \<^verbatim>\<open>byte(v * 255)\<close>. The product lies in \<open>[0, 255]\<close> wherever the codec
  calls it on a palette entry; outside of the range of a byte Go leaves the conversion to
  the implementation, and the model wraps.
\<close>

definition denormalize :: "float64 \<Rightarrow> u8" where
  "denormalize v = word_of_int (truncate (f64_mul v (float64_of_int 255)))"

text \<open>
  \<^verbatim>\<open>generatePalette\<close>, the array \<^verbatim>\<open>[8]float64\<close> as a list of 8 entries. An entry such as
  \<^verbatim>\<open>(6*c0 + 1*c1) / 7\<close> is two products, a sum and a quotient of \<^verbatim>\<open>float64\<close>, the
  literals converted exactly.
\<close>

definition generatePalette :: "float64 \<Rightarrow> float64 \<Rightarrow> float64 list" where
  "generatePalette c0 c1 =
     (if f_less c1 c0 then
        [c0, c1,
         f64_div (f64_add (f64_mul (float64_of_int 6) c0) (f64_mul (float64_of_int 1) c1))
                 (float64_of_int 7),
         f64_div (f64_add (f64_mul (float64_of_int 5) c0) (f64_mul (float64_of_int 2) c1))
                 (float64_of_int 7),
         f64_div (f64_add (f64_mul (float64_of_int 4) c0) (f64_mul (float64_of_int 3) c1))
                 (float64_of_int 7),
         f64_div (f64_add (f64_mul (float64_of_int 3) c0) (f64_mul (float64_of_int 4) c1))
                 (float64_of_int 7),
         f64_div (f64_add (f64_mul (float64_of_int 2) c0) (f64_mul (float64_of_int 5) c1))
                 (float64_of_int 7),
         f64_div (f64_add (f64_mul (float64_of_int 1) c0) (f64_mul (float64_of_int 6) c1))
                 (float64_of_int 7)]
      else
        [c0, c1,
         f64_div (f64_add (f64_mul (float64_of_int 4) c0) (f64_mul (float64_of_int 1) c1))
                 (float64_of_int 5),
         f64_div (f64_add (f64_mul (float64_of_int 3) c0) (f64_mul (float64_of_int 2) c1))
                 (float64_of_int 5),
         f64_div (f64_add (f64_mul (float64_of_int 2) c0) (f64_mul (float64_of_int 3) c1))
                 (float64_of_int 5),
         f64_div (f64_add (f64_mul (float64_of_int 1) c0) (f64_mul (float64_of_int 4) c1))
                 (float64_of_int 5),
         float64_of_int 0, float64_of_int 1])"

text \<open>An index expression \<^verbatim>\<open>pal[i]\<close> with an \<^verbatim>\<open>int\<close> index panics outside of the array.\<close>

definition palette_at :: "float64 list \<Rightarrow> int \<Rightarrow> error + float64" where
  "palette_at pal i =
     (if 0 \<le> i \<and> i < int (length pal) then Inr (pal ! nat i) else Inl IndexOutOfRange)"

text \<open>
  The closure \<^verbatim>\<open>nearest\<close> of \<^verbatim>\<open>compressBlock\<close>: the first entry of the least distance to
  \<^verbatim>\<open>normalize(v)\<close>, the comparison being strict.
\<close>

definition nearest :: "float64 list \<Rightarrow> u8 \<Rightarrow> u8" where
  "nearest pal v =
     of_nat (foldl (\<lambda>ni i. if f_less (f_abs (f64_sub (pal ! i) (normalize_byte v)))
                                      (f_abs (f64_sub (pal ! ni) (normalize_byte v)))
                           then i else ni) 0 [0..<8])"

section \<open>Colours, rectangles and images\<close>

text \<open>
  The types of Go's packages \<^verbatim>\<open>image\<close> and \<^verbatim>\<open>image/color\<close> that \<^verbatim>\<open>bc5.go\<close> uses, with the
  documented behaviour of their methods. An \<^verbatim>\<open>image.RGBA\<close> is its bounds (the field
  \<^verbatim>\<open>Rect\<close>, here \<open>Bounds\<close>) and the colour stored at each point; the layout of the
  pixel buffer is not part of the model.
\<close>

record RGBA =
  R :: u8
  G :: u8
  B :: u8
  A :: u8

definition zeroRGBA :: RGBA where
  "zeroRGBA = \<lparr>R = 0, G = 0, B = 0, A = 0\<rparr>"

record Point =
  X :: int
  Y :: int

record Rectangle =
  Min_pt :: Point
  Max_pt :: Point

definition ZR :: Rectangle where
  "ZR = \<lparr>Min_pt = \<lparr>X = 0, Y = 0\<rparr>, Max_pt = \<lparr>X = 0, Y = 0\<rparr>\<rparr>"

definition image_Rect :: "int \<Rightarrow> int \<Rightarrow> int \<Rightarrow> int \<Rightarrow> Rectangle" where
  "image_Rect x0 y0 x1 y1 =
     \<lparr>Min_pt = \<lparr>X = min x0 x1, Y = min y0 y1\<rparr>, Max_pt = \<lparr>X = max x0 x1, Y = max y0 y1\<rparr>\<rparr>"

definition Rectangle_Size :: "Rectangle \<Rightarrow> Point" where
  "Rectangle_Size r = \<lparr>X = X (Max_pt r) - X (Min_pt r), Y = Y (Max_pt r) - Y (Min_pt r)\<rparr>"

definition Rectangle_Empty :: "Rectangle \<Rightarrow> bool" where
  "Rectangle_Empty r \<longleftrightarrow> X (Min_pt r) \<ge> X (Max_pt r) \<or> Y (Min_pt r) \<ge> Y (Max_pt r)"

definition Rectangle_Intersect :: "Rectangle \<Rightarrow> Rectangle \<Rightarrow> Rectangle" where
  "Rectangle_Intersect r s =
     (let r' = \<lparr>Min_pt = \<lparr>X = max (X (Min_pt r)) (X (Min_pt s)), Y = max (Y (Min_pt r)) (Y (Min_pt s))\<rparr>,
                Max_pt = \<lparr>X = min (X (Max_pt r)) (X (Max_pt s)), Y = min (Y (Max_pt r)) (Y (Max_pt s))\<rparr>\<rparr>
      in if Rectangle_Empty r' then ZR else r')"

definition Rectangle_Add :: "Rectangle \<Rightarrow> Point \<Rightarrow> Rectangle" where
  "Rectangle_Add r p =
     \<lparr>Min_pt = \<lparr>X = X (Min_pt r) + X p, Y = Y (Min_pt r) + Y p\<rparr>,
      Max_pt = \<lparr>X = X (Max_pt r) + X p, Y = Y (Max_pt r) + Y p\<rparr>\<rparr>"

definition Point_Sub :: "Point \<Rightarrow> Point \<Rightarrow> Point" where
  "Point_Sub p q = \<lparr>X = X p - X q, Y = Y p - Y q\<rparr>"

definition Point_In :: "Point \<Rightarrow> Rectangle \<Rightarrow> bool" where
  "Point_In p r \<longleftrightarrow>
     X (Min_pt r) \<le> X p \<and> X p < X (Max_pt r) \<and> Y (Min_pt r) \<le> Y p \<and> Y p < Y (Max_pt r)"

record RGBAImage =
  Pix :: "int \<times> int \<Rightarrow> RGBA"
  Bounds :: Rectangle

definition NewRGBA :: "Rectangle \<Rightarrow> RGBAImage" where
  "NewRGBA r = \<lparr>Pix = (\<lambda>_. zeroRGBA), Bounds = r\<rparr>"

text \<open>\<^verbatim>\<open>RGBAAt\<close> gives the zero colour outside of the bounds, and \<^verbatim>\<open>SetRGBA\<close> does nothing.\<close>

definition RGBAAt :: "RGBAImage \<Rightarrow> int \<Rightarrow> int \<Rightarrow> RGBA" where
  "RGBAAt p x y = (if Point_In \<lparr>X = x, Y = y\<rparr> (Bounds p) then Pix p (x, y) else zeroRGBA)"

definition SetRGBA :: "RGBAImage \<Rightarrow> int \<Rightarrow> int \<Rightarrow> RGBA \<Rightarrow> RGBAImage" where
  "SetRGBA p x y c =
     (if Point_In \<lparr>X = x, Y = y\<rparr> (Bounds p) then p\<lparr>Pix := (Pix p)((x, y) := c)\<rparr> else p)"

text \<open>\<^verbatim>\<open>SubImage\<close>: the part of the image inside \<open>r\<close>, the empty image if there is none.\<close>

definition SubImage :: "RGBAImage \<Rightarrow> Rectangle \<Rightarrow> RGBAImage" where
  "SubImage p r =
     (let r' = Rectangle_Intersect r (Bounds p)
      in if Rectangle_Empty r' then \<lparr>Pix = (\<lambda>_. zeroRGBA), Bounds = ZR\<rparr>
         else \<lparr>Pix = Pix p, Bounds = r'\<rparr>)"

text \<open>
  \<^verbatim>\<open>draw.Draw(dst, r, src, sp, draw.Src)\<close>: \<open>r\<close> is clipped to the bounds of \<open>dst\<close> and to
  the bounds of \<open>src\<close> moved by \<open>r.Min - sp\<close>, and every point of what is left takes the
  colour of the source point aligned with it.
\<close>

definition draw_Src :: "RGBAImage \<Rightarrow> Rectangle \<Rightarrow> RGBAImage \<Rightarrow> Point \<Rightarrow> RGBAImage" where
  "draw_Src dst r src sp =
     (let orig = Min_pt r;
          r1 = Rectangle_Intersect r (Bounds dst);
          r2 = Rectangle_Intersect r1 (Rectangle_Add (Bounds src) (Point_Sub orig sp))
      in dst\<lparr>Pix := (\<lambda>(x, y).
                 if Point_In \<lparr>X = x, Y = y\<rparr> r2
                 then RGBAAt src (x - X orig + X sp) (y - Y orig + Y sp)
                 else Pix dst (x, y))\<rparr>)"

section \<open>The block codec\<close>

text \<open>The two nested loops \<^verbatim>\<open>for y := 0; y < 4; y++ { for x := 0; x < 4; x++\<close>.\<close>

definition scanOrder :: "(int \<times> int) list" where
  "scanOrder = concat (map (\<lambda>y. map (\<lambda>x. (x, y)) [0, 1, 2, 3]) [0, 1, 2, 3])"

definition blockPixels :: "RGBAImage \<Rightarrow> RGBA list" where
  "blockPixels block = map (\<lambda>(x, y). RGBAAt block x y) scanOrder"

text \<open>The first loop of \<^verbatim>\<open>compressBlock\<close>, on \<open>(minR, maxR, minG, maxG)\<close>.\<close>

definition minmax_step :: "u8 \<times> u8 \<times> u8 \<times> u8 \<Rightarrow> RGBA \<Rightarrow> u8 \<times> u8 \<times> u8 \<times> u8" where
  "minmax_step s c =
     (case s of (minR, maxR, minG, maxG) \<Rightarrow>
        (if R c < minR then R c else minR,
         if R c > maxR then R c else maxR,
         if G c < minG then G c else minG,
         if G c > maxG then G c else maxG))"

definition compressBlock :: "RGBAImage \<Rightarrow> u8 list" where
  "compressBlock block =
     (let px = blockPixels block;
          (minR, maxR, minG, maxG) = foldl minmax_step (255, 0, 255, 0) px;
          palR = generatePalette (normalize_byte minR) (normalize_byte maxR);
          palG = generatePalette (normalize_byte minG) (normalize_byte maxG);
          rIxBytes = PutUint64 (accumulateIndices (map (\<lambda>c. nearest palR (R c)) px));
          gIxBytes = PutUint64 (accumulateIndices (map (\<lambda>c. nearest palG (G c)) px))
      in [denormalize (palR ! 0), denormalize (palR ! 1)] @ drop 2 rIxBytes
         @ [denormalize (palG ! 0), denormalize (palG ! 1)] @ drop 2 gIxBytes)"

text \<open>
  The blue modes are the values 0 to 3 of the integer type \<^verbatim>\<open>BlueMode\<close>; every other
  value takes the default branch of the switch.
\<close>

type_synonym BlueMode = int

definition Zero :: BlueMode where "Zero = 0"
definition One_mode :: BlueMode where "One_mode = 1"
definition ComputeNormal :: BlueMode where "ComputeNormal = 2"
definition Greyscale :: BlueMode where "Greyscale = 3"

text \<open>
  The body of the loop of \<^verbatim>\<open>decompressBlock\<close>: the colour of the pixel \<open>pxIndex\<close>. The
  blue value of \<^verbatim>\<open>ComputeNormal\<close> goes through \<^verbatim>\<open>math.Sqrt\<close> and \<^verbatim>\<open>math.Pow\<close> and through
  a conversion to \<^verbatim>\<open>byte\<close> of a value that can exceed 255; it is the parameter
  \<open>normalB\<close>, a function of the two palette entries.
\<close>

definition pixelColour ::
  "(float64 \<Rightarrow> float64 \<Rightarrow> u8) \<Rightarrow> BlueMode \<Rightarrow> float64 list \<Rightarrow> float64 list
     \<Rightarrow> int list \<Rightarrow> int list \<Rightarrow> nat \<Rightarrow> error + RGBA" where
  "pixelColour normalB blueMode r g rIndices gIndices pxIndex =
     (case palette_at r (rIndices ! pxIndex) of
        Inl e \<Rightarrow> Inl e
      | Inr rv \<Rightarrow>
          (case palette_at g (gIndices ! pxIndex) of
             Inl e \<Rightarrow> Inl e
           | Inr gv \<Rightarrow>
               (let pxR = denormalize rv;
                    pxG = denormalize gv;
                    pxB = (if blueMode = ComputeNormal then normalB rv gv
                           else if blueMode = Greyscale then pxR
                           else if blueMode = One_mode then denormalize (float64_of_int 1)
                           else 0)
                in Inr \<lparr>R = pxR, G = pxG, B = pxB, A = 1\<rparr>)))"

fun decompressLoop ::
  "(nat \<Rightarrow> error + RGBA) \<Rightarrow> (int \<times> int) list \<Rightarrow> nat \<Rightarrow> RGBAImage \<Rightarrow> error + RGBAImage" where
  "decompressLoop colour [] pxIndex img = Inr img"
| "decompressLoop colour ((x, y) # ps) pxIndex img =
     (case colour pxIndex of
        Inl e \<Rightarrow> Inl e
      | Inr c \<Rightarrow> decompressLoop colour ps (pxIndex + 1) (SetRGBA img x y c))"

definition decompressBlock ::
  "(float64 \<Rightarrow> float64 \<Rightarrow> u8) \<Rightarrow> u8 list \<Rightarrow> BlueMode \<Rightarrow> error + RGBAImage" where
  "decompressBlock normalB block blueMode =
     (if length block \<noteq> 16 then Inl InvalidBlockSize
      else let r = generatePalette (normalize_byte (block ! 0)) (normalize_byte (block ! 1))
           in case getIndices (take 6 (drop 2 block)) of
                Inl e \<Rightarrow> Inl e
              | Inr rIndices \<Rightarrow>
                  (let g = generatePalette (normalize_byte (block ! 8)) (normalize_byte (block ! 9))
                   in case getIndices (drop 10 block) of
                        Inl e \<Rightarrow> Inl e
                      | Inr gIndices \<Rightarrow>
                          decompressLoop (pixelColour normalB blueMode r g rIndices gIndices)
                            scanOrder 0 (NewRGBA (image_Rect 0 0 4 4))))"

section \<open>Compressed images\<close>

record BC5 =
  Data :: "u8 list"
  Rect :: Rectangle
  BlueMode :: BlueMode

text \<open>\<^verbatim>\<open>new(BC5)\<close>.\<close>

definition newBC5 :: BC5 where
  "newBC5 = \<lparr>Data = [], Rect = ZR, BlueMode = 0\<rparr>"

text \<open>
  A slice expression \<^verbatim>\<open>s[lo:hi]\<close> panics unless \<open>0 \<le> lo \<le> hi \<le> cap(s)\<close>; the slices of
  the model have no spare capacity, as those that \<^verbatim>\<open>make\<close> returns.
\<close>

definition slice :: "'a list \<Rightarrow> int \<Rightarrow> int \<Rightarrow> error + 'a list" where
  "slice s lo hi =
     (if 0 \<le> lo \<and> lo \<le> hi \<and> hi \<le> int (length s)
      then Inr (take (nat (hi - lo)) (drop (nat lo) s))
      else Inl SliceBoundsOutOfRange)"

text \<open>The results of a loop whose body can panic: the first panic ends it.\<close>

fun collect :: "(error + 'a) list \<Rightarrow> error + 'a list" where
  "collect [] = Inr []"
| "collect (x # xs) =
     (case x of
        Inl e \<Rightarrow> Inl e
      | Inr v \<Rightarrow> (case collect xs of Inl e \<Rightarrow> Inl e | Inr vs \<Rightarrow> Inr (v # vs)))"

text \<open>\<^verbatim>\<open>At\<close>.\<close>

definition At :: "(float64 \<Rightarrow> float64 \<Rightarrow> u8) \<Rightarrow> BC5 \<Rightarrow> int \<Rightarrow> int \<Rightarrow> error + RGBA" where
  "At normalB b x y =
     (if x < 0 \<or> x \<ge> X (Rectangle_Size (Rect b)) \<or> y < 0 \<or> y \<ge> Y (Rectangle_Size (Rect b))
      then Inr zeroRGBA
      else let blockIx = (int_float32_div4 y * Y (Rectangle_Size (Rect b))) + int_float32_div4 x * 16
           in case slice (Data b) blockIx (blockIx + 16) of
                Inl e \<Rightarrow> Inl e
              | Inr d \<Rightarrow>
                  (case decompressBlock normalB d (BlueMode b) of
                     Inl e \<Rightarrow> Inl e
                   | Inr block \<Rightarrow> Inr (RGBAAt block (go_mod x 4) (go_mod y 4))))"

text \<open>\<^verbatim>\<open>Size\<close>: the product of the two sizes, each converted to \<^verbatim>\<open>int32\<close>.\<close>

definition Size :: "BC5 \<Rightarrow> 32 word" where
  "Size b = word_of_int (X (Rectangle_Size (Rect b))) * word_of_int (Y (Rectangle_Size (Rect b)))"

text \<open>
  \<^verbatim>\<open>makeBlocks\<close>. The body of its loops is \<open>makeBlock\<close>. The slice of \<open>n\<close> pointers starts
  out as \<open>n\<close> nil pointers, and the loops fill a prefix of it.
\<close>

definition makeBlock :: "RGBAImage \<Rightarrow> int \<Rightarrow> int \<Rightarrow> RGBAImage" where
  "makeBlock img x y =
     (let subImg = SubImage img (image_Rect (x * 4) (y * 4) ((x * 4) + 4) ((y * 4) + 4));
          blk = NewRGBA (image_Rect 0 0 4 4)
      in draw_Src blk (Bounds blk) subImg (Min_pt (Bounds subImg)))"

definition makeBlocks :: "RGBAImage \<Rightarrow> error + RGBAImage option list" where
  "makeBlocks img =
     (let w = go_div (X (Rectangle_Size (Bounds img))) 4;
          h = go_div (Y (Rectangle_Size (Bounds img))) 4;
          filled = concat (map (\<lambda>y. map (\<lambda>x. makeBlock img x y) [0..w - 1]) [0..h - 1])
      in if w * h < 0 then Inl MakeSliceLenOutOfRange
         else if nat (w * h) < length filled then Inl IndexOutOfRange
         else Inr (map Some filled @ replicate (nat (w * h) - length filled) None))"

text \<open>The loop of \<^verbatim>\<open>SetFromRGBA\<close>: the blocks compressed one after the other.\<close>

fun compressBlocks :: "RGBAImage option list \<Rightarrow> error + u8 list" where
  "compressBlocks [] = Inr []"
| "compressBlocks (None # bs) = Inl NilPointerDereference"
| "compressBlocks (Some blk # bs) =
     (case compressBlocks bs of Inl e \<Rightarrow> Inl e | Inr d \<Rightarrow> Inr (compressBlock blk @ d))"

definition SetFromRGBA :: "BC5 \<Rightarrow> RGBAImage \<Rightarrow> error + BC5" where
  "SetFromRGBA b rgba =
     (if X (Rectangle_Size (Bounds rgba)) \<noteq> Y (Rectangle_Size (Bounds rgba))
      then Inl ImageMustBeSquare
      else if go_mod (X (Rectangle_Size (Bounds rgba))) 4 \<noteq> 0
      then Inl SizeMustBeMultipleOf4
      else case makeBlocks rgba of
             Inl e \<Rightarrow> Inl e
           | Inr blocks \<Rightarrow>
               (case compressBlocks blocks of
                  Inl e \<Rightarrow> Inl e
                | Inr d \<Rightarrow> Inr (b\<lparr>Data := d, Rect := Bounds rgba\<rparr>)))"

definition NewBC5FromRGBA :: "RGBAImage \<Rightarrow> error + BC5" where
  "NewBC5FromRGBA rgba = SetFromRGBA newBC5 rgba"

text \<open>
  \<^verbatim>\<open>Decompress\<close>. The second pair of loops is \<open>untileLoop\<close>, over the points \<open>(x, y)\<close> with
  \<open>y\<close> outside and \<open>x\<close> inside; \<open>untile_blockIx\<close> is its
  \<^verbatim>\<open>blockIx := (int(float32(y)/4) * b.Rect.Size().X / 4) + int(float32(x)/4)\<close>.
\<close>

definition untile_blockIx :: "int \<Rightarrow> int \<Rightarrow> int \<Rightarrow> int" where
  "untile_blockIx sizeX x y = go_div (int_float32_div4 y * sizeX) 4 + int_float32_div4 x"

fun untileLoop :: "RGBAImage list \<Rightarrow> int \<Rightarrow> (int \<times> int) list \<Rightarrow> RGBAImage \<Rightarrow> error + RGBAImage" where
  "untileLoop blocks sizeX [] rgba = Inr rgba"
| "untileLoop blocks sizeX ((x, y) # ps) rgba =
     (let blockIx = untile_blockIx sizeX x y
      in if 0 \<le> blockIx \<and> blockIx < int (length blocks)
         then untileLoop blocks sizeX ps
                (SetRGBA rgba x y (RGBAAt (blocks ! nat blockIx) (go_mod x 4) (go_mod y 4)))
         else Inl IndexOutOfRange)"

definition Decompress :: "(float64 \<Rightarrow> float64 \<Rightarrow> u8) \<Rightarrow> BC5 \<Rightarrow> error + RGBAImage" where
  "Decompress normalB b =
     (case collect (map (\<lambda>i. decompressBlock normalB (take 16 (drop (i * 16) (Data b))) (BlueMode b))
                        [0..<length (Data b) div 16]) of
        Inl e \<Rightarrow> Inl e
      | Inr blocks \<Rightarrow>
          untileLoop blocks (X (Rectangle_Size (Rect b)))
            (concat (map (\<lambda>y. map (\<lambda>x. (x, y)) [0..X (Rectangle_Size (Rect b)) - 1])
                         [0..Y (Rectangle_Size (Rect b)) - 1]))
            (NewRGBA (Rect b)))"

section \<open>The wire format\<close>

text \<open>\<^verbatim>\<open>strToDword\<close>, on a string of at least 4 bytes.\<close>

definition strToDword :: "string \<Rightarrow> u32" where
  "strToDword s = Uint32 (map (\<lambda>c. of_nat (of_char c)) s)"

text \<open>
  \<^verbatim>\<open>Decode\<close>, on what \<^verbatim>\<open>ioutil.ReadAll\<close> gives for the reader: an error or all the bytes.
  An \<^verbatim>\<open>int\<close> has 64 bits, so that \<^verbatim>\<open>int(width)\<close> is the value of the \<^verbatim>\<open>uint32\<close>.
\<close>

definition Decode :: "error + u8 list \<Rightarrow> error + BC5" where
  "Decode r =
     (case r of
        Inl err \<Rightarrow> Inl err
      | Inr readBytes \<Rightarrow>
          if length readBytes < 12 then Inl NotEnoughData
          else let signature = Uint32 (take 4 readBytes)
               in if signature \<noteq> strToDword ''BC5 '' then Inl InvalidFileSignature
                  else let width = Uint32 (take 4 (drop 4 readBytes));
                           height = Uint32 (take 4 (drop 8 readBytes))
                       in if length readBytes < 13 then Inl NoImageDataFound
                          else Inr \<lparr>Data = drop 12 readBytes,
                                    Rect = image_Rect 0 0 (uint width) (uint height),
                                    BlueMode = 0\<rparr>)"

text \<open>
  \<^verbatim>\<open>Encode\<close>. A writer is its method \<^verbatim>\<open>Write\<close>: from the state of the writer and the bytes
  to the pair \<^verbatim>\<open>(n, err)\<close> and the next state. \<open>Buffer_Write\<close> is the writer
  \<^verbatim>\<open>bytes.Buffer\<close>, which takes everything.
\<close>

type_synonym 'w writer = "'w \<Rightarrow> u8 list \<Rightarrow> (int \<times> error option) \<times> 'w"

definition Encode :: "'w writer \<Rightarrow> BC5 \<Rightarrow> 'w \<Rightarrow> error option \<times> 'w" where
  "Encode write img w =
     (let headerBytes = PutUint32 (strToDword ''BC5 '')
                        @ PutUint32 (word_of_int (X (Rectangle_Size (Rect img))))
                        @ PutUint32 (word_of_int (Y (Rectangle_Size (Rect img))))
      in case write w headerBytes of
           ((n, Some err), w1) \<Rightarrow> (Some err, w1)
         | ((n, None), w1) \<Rightarrow>
             if n \<noteq> 12 then (Some FailedToWriteHeader, w1)
             else (case write w1 (Data img) of
                     ((n, Some err), w2) \<Rightarrow> (Some err, w2)
                   | ((n, None), w2) \<Rightarrow>
                       if n \<noteq> int (length (Data img)) then (Some FailedToWriteImageData, w2)
                       else (None, w2)))"

definition Buffer_Write :: "(u8 list) writer" where
  "Buffer_Write buf p = ((int (length p), None), buf @ p)"

section \<open>Example inputs\<close>

text \<open>
  A 4x4 block whose first pixel is black and whose other pixels have red and green 255; an
  8x8 image whose upper four rows are black and whose lower four rows have red and green
  255, and the compressed image that \<^verbatim>\<open>NewBC5FromRGBA\<close> makes of it; an 8x8 image of red
  100 and green 200 whose bounds are (4,4)-(12,12), and the compressed image that
  \<^verbatim>\<open>NewBC5FromRGBA\<close> makes of it.
\<close>

definition corner_block :: RGBAImage where
  "corner_block =
     \<lparr>Pix = (\<lambda>(x, y). if x = 0 \<and> y = 0 then \<lparr>R = 0, G = 0, B = 0, A = 255\<rparr>
                        else \<lparr>R = 255, G = 255, B = 0, A = 255\<rparr>),
      Bounds = image_Rect 0 0 4 4\<rparr>"

definition two_tone_image :: RGBAImage where
  "two_tone_image =
     \<lparr>Pix = (\<lambda>(x, y). if y < 4 then \<lparr>R = 0, G = 0, B = 0, A = 255\<rparr>
                        else \<lparr>R = 255, G = 255, B = 0, A = 255\<rparr>),
      Bounds = image_Rect 0 0 8 8\<rparr>"

definition two_tone_bc5 :: BC5 where
  "two_tone_bc5 =
     \<lparr>Data = replicate 32 0
             @ [255, 255, 0, 0, 0, 0, 0, 0, 255, 255, 0, 0, 0, 0, 0, 0,
                255, 255, 0, 0, 0, 0, 0, 0, 255, 255, 0, 0, 0, 0, 0, 0],
      Rect = image_Rect 0 0 8 8, BlueMode = 0\<rparr>"



section \<open>Properties of the block codec\<close>

lemma length_PutUint64: "length (PutUint64 v) = 8"
  by (simp add: PutUint64_def)

lemma length_generatePalette: "length (generatePalette c0 c1) = 8"
  by (simp add: generatePalette_def)

lemma length_compressBlock: "length (compressBlock blk) = 16"
  by (simp add: compressBlock_def Let_def length_PutUint64 split: prod.split)

lemma scanOrder_eq:
  "scanOrder = [(0,0),(1,0),(2,0),(3,0),(0,1),(1,1),(2,1),(3,1),
                (0,2),(1,2),(2,2),(3,2),(0,3),(1,3),(2,3),(3,3)]"
  by (simp add: scanOrder_def)

lemma length_scanOrder: "length scanOrder = 16"
  by (simp add: scanOrder_def)

lemma index_bound: "0 \<le> uint (w AND (7 :: u64)) \<and> uint (w AND 7) < 8"
proof -
  have "w AND 7 \<le> 7" by (rule word_and_le1)
  then have "uint (w AND 7) \<le> uint (7 :: u64)" by (simp only: word_le_def)
  then show ?thesis by simp
qed

lemma getIndices_ok:
  assumes "length b = 6"
  shows "\<exists>ix. getIndices b = Inr ix \<and> length ix = 16 \<and> (\<forall>i\<in>set ix. 0 \<le> i \<and> i < 8)"
  using assms index_bound by (auto simp: getIndices_def Let_def)

lemma palette_at_ok:
  "length pal = 8 \<Longrightarrow> 0 \<le> i \<Longrightarrow> i < 8 \<Longrightarrow> palette_at pal i = Inr (pal ! nat i)"
  by (simp add: palette_at_def)

lemma pixelColour_ok:
  assumes "length r = 8" "length g = 8" "k < length ri" "k < length gi"
    and "\<forall>i\<in>set ri. 0 \<le> i \<and> i < 8" "\<forall>i\<in>set gi. 0 \<le> i \<and> i < 8"
  shows "\<exists>c. pixelColour nb bm r g ri gi k = Inr c
       \<and> R c = denormalize (r ! nat (ri ! k)) \<and> G c = denormalize (g ! nat (gi ! k)) \<and> A c = 1"
proof -
  have "0 \<le> ri ! k \<and> ri ! k < 8" "0 \<le> gi ! k \<and> gi ! k < 8"
    using assms by (auto simp: all_set_conv_all_nth)
  then show ?thesis
    using assms(1,2) by (simp add: pixelColour_def palette_at_ok Let_def)
qed

lemma Bounds_SetRGBA [simp]: "Bounds (SetRGBA img x y c) = Bounds img"
  by (simp add: SetRGBA_def)

lemma decompressLoop_ok:
  assumes "\<forall>k < length ps. \<exists>c. colour (n + k) = Inr c"
  shows "\<exists>img'. decompressLoop colour ps n img = Inr img' \<and> Bounds img' = Bounds img"
  using assms
proof (induction ps arbitrary: n img)
  case Nil
  then show ?case by simp
next
  case (Cons p ps)
  obtain x y where p: "p = (x, y)" by (cases p)
  from Cons.prems have "\<exists>c. colour (n + 0) = Inr c" by fastforce
  then obtain c where c: "colour n = Inr c" by auto
  have "\<forall>k < length ps. \<exists>c. colour (Suc n + k) = Inr c"
    using Cons.prems by fastforce
  from Cons.IH [OF this, of "SetRGBA img x y c"] show ?case
    by (simp add: p c)
qed

lemma decompressBlock_ok:
  assumes "length d = 16"
  shows "\<exists>img. decompressBlock nb d bm = Inr img \<and> Bounds img = image_Rect 0 0 4 4"
proof -
  obtain ri where ri: "getIndices (take 6 (drop 2 d)) = Inr ri" "length ri = 16"
      "\<forall>i\<in>set ri. 0 \<le> i \<and> i < 8"
    using getIndices_ok [of "take 6 (drop 2 d)"] assms by auto
  obtain gi where gi: "getIndices (drop 10 d) = Inr gi" "length gi = 16"
      "\<forall>i\<in>set gi. 0 \<le> i \<and> i < 8"
    using getIndices_ok [of "drop 10 d"] assms by auto
  let ?r = "generatePalette (normalize_byte (d ! 0)) (normalize_byte (d ! 1))"
  let ?g = "generatePalette (normalize_byte (d ! 8)) (normalize_byte (d ! 9))"
  have "\<forall>k < length scanOrder. \<exists>c. pixelColour nb bm ?r ?g ri gi (0 + k) = Inr c"
  proof (intro allI impI)
    fix k assume "k < length scanOrder"
    then have k: "k < length ri" "k < length gi"
      using ri(2) gi(2) by (simp_all add: length_scanOrder)
    from pixelColour_ok [OF length_generatePalette length_generatePalette k ri(3) gi(3)]
    show "\<exists>c. pixelColour nb bm ?r ?g ri gi (0 + k) = Inr c"
      unfolding add_0 by blast
  qed
  from decompressLoop_ok [OF this, of "NewRGBA (image_Rect 0 0 4 4)"] show ?thesis
    using assms ri(1) gi(1) by (simp add: decompressBlock_def Let_def NewRGBA_def)
qed

lemma minmax_cong:
  "map R px = map R py \<Longrightarrow> map G px = map G py
   \<Longrightarrow> foldl minmax_step s px = foldl minmax_step s py"
proof (induction px arbitrary: py s)
  case Nil
  then show ?case by simp
next
  case (Cons c px)
  then obtain c' py' where py: "py = c' # py'" by (cases py) auto
  with Cons.prems have eq: "R c = R c'" "G c = G c'" "map R px = map R py'" "map G px = map G py'"
    by auto
  have "minmax_step s c = minmax_step s c'"
    by (simp add: minmax_step_def eq split: prod.split)
  with Cons.IH [OF eq(3,4)] show ?case by (simp add: py)
qed

lemma compressBlock_cong:
  assumes "map R (blockPixels b1) = map R (blockPixels b2)"
    and "map G (blockPixels b1) = map G (blockPixels b2)"
  shows "compressBlock b1 = compressBlock b2"
proof -
  have mm: "foldl minmax_step s (blockPixels b1) = foldl minmax_step s (blockPixels b2)" for s
    using assms by (rule minmax_cong)
  have ix: "map (\<lambda>c. nearest pal (R c)) (blockPixels b1) = map (\<lambda>c. nearest pal (R c)) (blockPixels b2)"
       "map (\<lambda>c. nearest pal (G c)) (blockPixels b1) = map (\<lambda>c. nearest pal (G c)) (blockPixels b2)" for pal
    using assms [THEN arg_cong, of "map (nearest pal)"] by (simp_all add: comp_def)
  show ?thesis
    by (simp add: compressBlock_def Let_def mm ix)
qed

lemma shl_eq: "shl m k = m * 2 ^ nat k"
proof (induction m k rule: shl.induct)
  case (1 m k)
  show ?case
  proof (cases "k \<le> 0")
    case True
    then show ?thesis by (simp add: shl.simps [of m k])
  next
    case False
    then have "nat k = Suc (nat (k - 1))" by simp
    with False 1 show ?thesis by (simp add: shl.simps [of m k])
  qed
qed

lemma f64_sub_self: "f64_sub a a = Dyadic 0 0"
  by (simp add: f64_sub_def round64_def round_ratio_def)

lemma not_less_abs_zero: "\<not> f_less (f_abs a) (f_abs (Dyadic 0 0))"
  by (simp add: f_less_def f_abs_def shl_eq Let_def not_less)

lemma upt8: "[0..<8] = [0, 1, 2, 3, 4, 5, 6, 7]"
  by (simp add: upt_rec)

lemma nearest_first:
  assumes "pal ! 0 = normalize_byte v"
  shows "nearest pal v = 0"
  by (simp add: nearest_def upt8 assms f64_sub_self not_less_abs_zero)

lemma minmax_step_first:
  "minmax_step (255, 0, 255, 0) c = (R c, R c, G c, G c)"
proof -
  have lo: "(if x < 255 then x else 255) = x" for x :: u8
  proof -
    have "(255 :: u8) = - 1" by simp
    then have "x \<le> 255" by (simp only: word_n1_ge)
    then show ?thesis by (auto simp: not_less)
  qed
  have hi: "(if 0 < x then x else 0) = x" for x :: u8
    by (auto simp: word_gt_0)
  show ?thesis
    by (simp add: minmax_step_def lo hi)
qed

lemma minmax_step_same:
  "minmax_step (R c, R c, G c, G c) c = (R c, R c, G c, G c)"
  by (simp add: minmax_step_def)

lemma foldl_minmax_same:
  "\<forall>c\<in>set cs. R c = r \<and> G c = g \<Longrightarrow> foldl minmax_step (r, r, g, g) cs = (r, r, g, g)"
proof (induction cs)
  case Nil
  show ?case by simp
next
  case (Cons c cs)
  from Cons.prems have rg: "R c = r" "G c = g" and rest: "\<forall>c\<in>set cs. R c = r \<and> G c = g"
    by simp_all
  have "minmax_step (r, r, g, g) c = (r, r, g, g)"
    using minmax_step_same [of c] unfolding rg .
  then have "foldl minmax_step (r, r, g, g) (c # cs) = foldl minmax_step (r, r, g, g) cs"
    by (simp only: foldl_Cons)
  with Cons.IH [OF rest] show ?case by (simp only:)
qed

lemma foldl_minmax_solid:
  assumes "cs \<noteq> []" "\<forall>c\<in>set cs. R c = r \<and> G c = g"
  shows "foldl minmax_step (255, 0, 255, 0) cs = (r, r, g, g)"
proof -
  obtain c cs' where cs: "cs = c # cs'" using assms(1) by (cases cs) auto
  from assms(2) have rg: "R c = r" "G c = g" and rest: "\<forall>c\<in>set cs'. R c = r \<and> G c = g"
    unfolding cs by simp_all
  have "minmax_step (255, 0, 255, 0) c = (r, r, g, g)"
    using minmax_step_first [of c] unfolding rg .
  then have "foldl minmax_step (255, 0, 255, 0) cs = foldl minmax_step (r, r, g, g) cs'"
    unfolding cs by (simp only: foldl_Cons)
  with foldl_minmax_same [OF rest] show ?thesis
    by (simp only:)
qed

lemma length_blockPixels: "length (blockPixels blk) = 16"
  by (simp add: blockPixels_def scanOrder_def)

lemma map_const: "\<forall>x\<in>set xs. f x = a \<Longrightarrow> map f xs = replicate (length xs) a"
  by (induction xs) simp_all

lemma zero_index_bytes: "drop 2 (PutUint64 (accumulateIndices (replicate 16 0))) = [0, 0, 0, 0, 0, 0]"
  by code_simp

lemma compressBlock_solid:
  assumes "\<forall>c\<in>set (blockPixels blk). R c = r \<and> G c = g"
  shows "compressBlock blk =
           [denormalize (normalize_byte r), denormalize (normalize_byte r), 0, 0, 0, 0, 0, 0,
            denormalize (normalize_byte g), denormalize (normalize_byte g), 0, 0, 0, 0, 0, 0]"
proof -
  let ?px = "blockPixels blk"
  have ne: "?px \<noteq> []"
    using length_blockPixels [of blk] by auto
  have mm: "foldl minmax_step (255, 0, 255, 0) ?px = (r, r, g, g)"
    using ne assms by (rule foldl_minmax_solid)
  let ?palR = "generatePalette (normalize_byte r) (normalize_byte r)"
  let ?palG = "generatePalette (normalize_byte g) (normalize_byte g)"
  have p0: "?palR ! 0 = normalize_byte r" "?palG ! 0 = normalize_byte g"
    by (simp_all add: generatePalette_def)
  have p1: "?palR ! 1 = normalize_byte r" "?palG ! 1 = normalize_byte g"
    by (simp_all add: generatePalette_def)
  have "\<forall>c\<in>set ?px. nearest ?palR (R c) = 0"
    using assms p0(1) by (simp add: nearest_first)
  then have ir: "map (\<lambda>c. nearest ?palR (R c)) ?px = replicate 16 0"
    using map_const [of ?px "\<lambda>c. nearest ?palR (R c)" 0] by (simp only: length_blockPixels)
  have "\<forall>c\<in>set ?px. nearest ?palG (G c) = 0"
    using assms p0(2) by (simp add: nearest_first)
  then have ig: "map (\<lambda>c. nearest ?palG (G c)) ?px = replicate 16 0"
    using map_const [of ?px "\<lambda>c. nearest ?palG (G c)" 0] by (simp only: length_blockPixels)
  show ?thesis
    unfolding compressBlock_def Let_def mm prod.case ir ig zero_index_bytes p0 p1
    by (simp only: append.simps)
qed



lemma denormalize_0: "denormalize (normalize_byte 0) = 0"
  by code_simp

lemma denormalize_255: "denormalize (normalize_byte 255) = 255"
  by code_simp

lemma makeBlock_Bounds: "Bounds (makeBlock img bx by) = image_Rect 0 0 4 4"
  by (simp add: makeBlock_def draw_Src_def NewRGBA_def Let_def)

lemma makeBlock_at:
  assumes "Bounds img = image_Rect 0 0 w h"
    and "0 \<le> bx" "bx * 4 + 4 \<le> w" "0 \<le> by" "by * 4 + 4 \<le> h"
    and "0 \<le> x" "x < 4" "0 \<le> y" "y < 4"
  shows "RGBAAt (makeBlock img bx by) x y = RGBAAt img (bx * 4 + x) (by * 4 + y)"
proof -
  let ?r = "image_Rect (bx * 4) (by * 4) (bx * 4 + 4) (by * 4 + 4)"
  have r: "?r = \<lparr>Min_pt = \<lparr>X = bx * 4, Y = by * 4\<rparr>, Max_pt = \<lparr>X = bx * 4 + 4, Y = by * 4 + 4\<rparr>\<rparr>"
    by (simp add: image_Rect_def)
  have b: "Bounds img = \<lparr>Min_pt = \<lparr>X = 0, Y = 0\<rparr>, Max_pt = \<lparr>X = w, Y = h\<rparr>\<rparr>"
    using assms by (simp add: image_Rect_def)
  have i: "Rectangle_Intersect ?r (Bounds img) = ?r"
    unfolding r b using assms by (simp add: Rectangle_Intersect_def Rectangle_Empty_def Let_def)
  have ne: "\<not> Rectangle_Empty ?r"
    unfolding r by (simp add: Rectangle_Empty_def)
  have sub: "SubImage img ?r = \<lparr>Pix = Pix img, Bounds = ?r\<rparr>"
    by (simp add: SubImage_def i ne Let_def)
  have r4: "image_Rect 0 0 4 4 = \<lparr>Min_pt = \<lparr>X = 0, Y = 0\<rparr>, Max_pt = \<lparr>X = 4, Y = 4\<rparr>\<rparr>"
    by (simp add: image_Rect_def)
  have "RGBAAt (makeBlock img bx by) x y = RGBAAt \<lparr>Pix = Pix img, Bounds = ?r\<rparr> (x + bx * 4) (y + by * 4)"
    unfolding makeBlock_def sub Let_def
    unfolding r r4 using assms(6-9)
    by (simp add: draw_Src_def NewRGBA_def RGBAAt_def Point_In_def Rectangle_Intersect_def
        Rectangle_Empty_def Rectangle_Add_def Point_Sub_def Let_def)
  also have "\<dots> = RGBAAt img (bx * 4 + x) (by * 4 + y)"
    unfolding r using assms(2-9)
    by (simp add: RGBAAt_def Point_In_def b add.commute)
  finally show ?thesis .
qed

lemma upto_0_1: "[0..1] = [0, 1 :: int]"
  by (simp add: upto.simps)

lemma makeBlocks_8x8:
  assumes "Bounds img = image_Rect 0 0 8 8"
  shows "makeBlocks img = Inr [Some (makeBlock img 0 0), Some (makeBlock img 1 0),
                               Some (makeBlock img 0 1), Some (makeBlock img 1 1)]"
  by (simp add: makeBlocks_def assms Rectangle_Size_def image_Rect_def go_div_def upto_0_1 Let_def)

text \<open>
  C1 (index packing round trip). The accumulation of \<^verbatim>\<open>compressBlock\<close> shifts the earlier
  indices up, so that the first pixel of the scan ends in bits 45 to 47, while
  \<^verbatim>\<open>getIndices\<close> reads its entry \<open>i\<close> from bits \<open>3 * i\<close>: unpacking what was packed gives
  the 16 values in the opposite order. Here the value 1 packed first comes back last.
\<close>

theorem index_packing_reverses_order:
  "getIndices (packIndices [1, 0, 0, 0, 0, 0, 0, 0, 0, 0, 0, 0, 0, 0, 0, 0])
     = Inr [0, 0, 0, 0, 0, 0, 0, 0, 0, 0, 0, 0, 0, 0, 0, 1]"
  by code_simp

subsection \<open>What the floating-point operations compute\<close>

lemma valof_Dyadic: "valof (Dyadic m e) = of_int m * 2 powi e"
  by (simp add: valof_def)

lemma valof_canon: "valof (canon m e) = of_int m * 2 powi e"
proof (induction m e rule: canon.induct)
  case (1 m e)
  show ?case
  proof (cases "m = 0")
    case True
    then show ?thesis by (simp add: canon.simps [of 0 e] valof_Dyadic)
  next
    case False
    show ?thesis
    proof (cases "even m")
      case True
      then obtain k where k: "m = 2 * k" by (auto elim: evenE)
      have "valof (canon m e) = valof (canon (m div 2) (e + 1))"
        using False True by (simp add: canon.simps [of m e])
      also have "\<dots> = of_int (m div 2) * 2 powi (e + 1)"
        using 1 False True by simp
      also have "\<dots> = of_int m * 2 powi e"
        by (simp add: k power_int_add)
      finally show ?thesis .
    next
      case odd: False
      then show ?thesis
        using False by (simp add: canon.simps [of m e] valof_Dyadic)
    qed
  qed
qed

lemma bitlen_bounds:
  "0 < a \<Longrightarrow> 1 \<le> bitlen a \<and> 2 ^ nat (bitlen a - 1) \<le> a \<and> a < 2 ^ nat (bitlen a)"
proof (induction a rule: bitlen.induct)
  case (1 a)
  show ?case
  proof (cases "a div 2 = 0")
    case True
    with 1(2) have "a = 1" by presburger
    then show ?thesis
      by (simp add: bitlen.simps [of 1] bitlen.simps [of 0])
  next
    case False
    with 1(2) have pos: "0 < a div 2" by presburger
    from 1(1) 1(2) pos have ih: "1 \<le> bitlen (a div 2)"
        "2 ^ nat (bitlen (a div 2) - 1) \<le> a div 2" "a div 2 < 2 ^ nat (bitlen (a div 2))"
      by simp_all
    have b: "bitlen a = 1 + bitlen (a div 2)"
      using 1(2) by (simp add: bitlen.simps [of a])
    have n: "nat (bitlen a - 1) = Suc (nat (bitlen (a div 2) - 1))"
            "nat (bitlen a) = Suc (nat (bitlen (a div 2)))"
      using ih(1) b by simp_all
    have "2 * 2 ^ nat (bitlen (a div 2) - 1) \<le> a"
      using ih(2) by presburger
    moreover have "a < 2 * 2 ^ nat (bitlen (a div 2))"
      using ih(3) by presburger
    ultimately have "2 ^ nat (bitlen a - 1) \<le> a \<and> a < 2 ^ nat (bitlen a)"
      unfolding n by simp
    moreover have "1 \<le> bitlen a"
      using ih(1) b by simp
    ultimately show ?thesis by simp
  qed
qed

lemma powi_split: "(2 :: rat) powi t = 2 ^ nat t / 2 ^ nat (- t)"
  by (cases "0 \<le> t") (simp_all add: power_int_def field_simps)

lemma floor_log2_le:
  assumes "0 < n" "0 < d"
  shows "2 powi (floor_log2 n d) \<le> (of_int n / of_int d :: rat)"
proof -
  let ?t = "bitlen n - bitlen d"
  have dpos: "(0 :: rat) < of_int d" and npos: "(0 :: rat) < of_int n"
    using assms by simp_all
  show ?thesis
  proof (cases "shl d ?t \<le> shl n (- ?t)")
    case True
    then have "d * 2 ^ nat ?t \<le> n * 2 ^ nat (- ?t)"
      by (simp add: shl_eq)
    then have "(of_int (d * 2 ^ nat ?t) :: rat) \<le> of_int (n * 2 ^ nat (- ?t))"
      by (simp only: of_int_le_iff)
    then have "(of_int d :: rat) * 2 ^ nat ?t \<le> of_int n * 2 ^ nat (- ?t)"
      by simp
    then have "(2 :: rat) ^ nat ?t / 2 ^ nat (- ?t) \<le> of_int n / of_int d"
      using dpos by (simp add: field_simps)
    then have "(2 :: rat) powi ?t \<le> of_int n / of_int d"
      by (subst powi_split)
    moreover have "floor_log2 n d = ?t"
      using True by (simp only: floor_log2_def Let_def if_True)
    ultimately show ?thesis by (simp only:)
  next
    case False
    from bitlen_bounds [OF assms(1)] have bn: "1 \<le> bitlen n" "2 ^ nat (bitlen n - 1) \<le> n"
      by simp_all
    from bitlen_bounds [OF assms(2)] have bd: "1 \<le> bitlen d" "d < 2 ^ nat (bitlen d)"
      by simp_all
    have "(of_int (2 ^ nat (bitlen n - 1)) :: rat) \<le> of_int n"
      using bn(2) by (simp only: of_int_le_iff)
    then have n': "(2 :: rat) powi (bitlen n - 1) \<le> of_int n"
      using bn(1) by (simp add: power_int_def)
    have "(of_int d :: rat) \<le> of_int (2 ^ nat (bitlen d))"
      using bd(2) by (simp only: of_int_le_iff)
    then have d': "(of_int d :: rat) \<le> 2 powi (bitlen d)"
      using bd(1) by (simp add: power_int_def)
    have "(2 :: rat) powi (?t - 1) = 2 powi (bitlen n - 1) / 2 powi (bitlen d)"
      by (simp add: power_int_diff)
    also have "\<dots> \<le> of_int n / 2 powi (bitlen d)"
      using n' by (simp add: divide_right_mono)
    also have "\<dots> \<le> of_int n / of_int d"
      using d' dpos npos by (simp add: divide_left_mono)
    finally have "(2 :: rat) powi (?t - 1) \<le> of_int n / of_int d" .
    moreover have "floor_log2 n d = ?t - 1"
      using False by (simp only: floor_log2_def Let_def if_False)
    ultimately show ?thesis by (simp only:)
  qed
qed

lemma round_step:
  fixes num den :: int
  assumes "0 < den"
  defines "q \<equiv> num div den" and "r \<equiv> num mod den"
  shows "\<bar>of_int (if 2 * r < den then q else if den < 2 * r then q + 1
                   else if even q then q else q + 1) - (of_int num / of_int den :: rat)\<bar> \<le> 1 / 2"
proof -
  have r: "0 \<le> r" "r < den"
    using assms(1) by (simp_all add: r_def)
  have "num = q * den + r"
    by (simp add: q_def r_def)
  then have "(of_int num :: rat) = of_int q * of_int den + of_int r"
    by (metis of_int_add of_int_mult)
  then have split: "(of_int num / of_int den :: rat) = of_int q + of_int r / of_int den"
    using assms(1) by (simp add: field_simps)
  have dpos: "(0 :: rat) < of_int den" using assms(1) by simp
  have r0: "(0 :: rat) \<le> of_int r / of_int den"
    using r(1) dpos by simp
  have r1: "(of_int r / of_int den :: rat) < 1"
    using r(2) dpos by simp
  show ?thesis
  proof (cases "2 * r < den")
    case True
    then have "(of_int (2 * r) :: rat) < of_int den" by (simp only: of_int_less_iff)
    then have "(of_int r / of_int den :: rat) < 1 / 2"
      using dpos by (simp add: field_simps)
    with True r0 show ?thesis by (simp add: split)
  next
    case False
    show ?thesis
    proof (cases "den < 2 * r")
      case True
      then have "(of_int den :: rat) < of_int (2 * r)" by (simp only: of_int_less_iff)
      then have "(1 / 2 :: rat) < of_int r / of_int den"
        using dpos by (simp add: field_simps)
      with True False r1 show ?thesis by (simp add: split)
    next
      case eq: False
      with False have "den = 2 * r" by simp
      then have "(of_int den :: rat) = of_int (2 * r)" by simp
      then have "(of_int r / of_int den :: rat) = 1 / 2"
        using dpos by (simp add: field_simps)
      then have f: "(of_int num / of_int den :: rat) = of_int q + 1 / 2"
        by (simp only: split)
      show ?thesis
      proof (cases "even q")
        case True
        with False eq show ?thesis
          unfolding f by simp
      next
        case odd: False
        have "\<bar>(of_int q + 1 :: rat) - (of_int q + 1 / 2)\<bar> \<le> 1 / 2"
          by simp
        with False eq odd show ?thesis
          unfolding f by (simp only: if_False of_int_add of_int_1)
      qed
    qed
  qed
qed

lemma shl_pos: "0 < d \<Longrightarrow> 0 < shl d k"
  by (simp add: shl_eq)

lemma scaled_ratio:
  assumes "0 < d"
  shows "(of_int (shl n k) / of_int (shl d (- k)) :: rat) = of_int n / of_int d * 2 powi k"
  by (simp add: shl_eq powi_split)

lemma round_ratio_error:
  fixes n d e :: int
  assumes "0 < d"
  defines "x \<equiv> (of_int n / of_int d * 2 powi e :: rat)"
  shows "\<bar>valof (round_ratio p emin n d e) - x\<bar>
           \<le> max (\<bar>x\<bar> * 2 powi (- int p)) (2 powi (emin - 1))"
proof (cases "n = 0")
  case True
  then show ?thesis
    by (simp add: round_ratio_def valof_Dyadic x_def le_max_iff_disj)
next
  case False
  define u where "u = max (floor_log2 \<bar>n\<bar> d + e - (int p - 1)) emin"
  define num where "num = shl n (e - u)"
  define den where "den = shl d (u - e)"
  define q' where "q' = (if 2 * (num mod den) < den then num div den
                         else if den < 2 * (num mod den) then num div den + 1
                         else if even (num div den) then num div den else num div den + 1)"
  have den: "0 < den"
    unfolding den_def using assms(1) by (rule shl_pos)
  have res: "round_ratio p emin n d e = canon q' u"
    using False by (simp add: round_ratio_def Let_def u_def num_def den_def q'_def)
  have ratio: "(of_int num / of_int den :: rat) = of_int n / of_int d * 2 powi (e - u)"
    using scaled_ratio [OF assms(1), of n "e - u"] by (simp add: num_def den_def)
  have "x = of_int n / of_int d * (2 powi (e - u) * 2 powi u)"
    by (simp add: x_def power_int_add [symmetric])
  then have x: "x = of_int num / of_int den * 2 powi u"
    by (simp add: ratio)
  have step: "\<bar>of_int q' - (of_int num / of_int den :: rat)\<bar> \<le> 1 / 2"
    unfolding q'_def using den by (rule round_step)
  have "valof (round_ratio p emin n d e) - x = (of_int q' - of_int num / of_int den) * 2 powi u"
    by (simp add: res valof_canon x algebra_simps)
  then have "\<bar>valof (round_ratio p emin n d e) - x\<bar>
               = \<bar>of_int q' - (of_int num / of_int den :: rat)\<bar> * 2 powi u"
    by (simp add: abs_mult)
  also have "\<dots> \<le> 1 / 2 * 2 powi u"
    using step by (intro mult_right_mono) simp_all
  also have "\<dots> = 2 powi (u - 1)"
    by (simp add: power_int_diff)
  finally have err: "\<bar>valof (round_ratio p emin n d e) - x\<bar> \<le> 2 powi (u - 1)" .
  have "2 powi (u - 1) \<le> max (\<bar>x\<bar> * 2 powi (- int p)) (2 powi (emin - 1))"
  proof (cases "u = emin")
    case True
    then show ?thesis by (simp add: le_max_iff_disj)
  next
    case neq: False
    then have u: "u - 1 = floor_log2 \<bar>n\<bar> d + e + (- int p)"
      by (simp add: u_def max_def split: if_splits)
    have "(2 :: rat) powi (floor_log2 \<bar>n\<bar> d) \<le> of_int \<bar>n\<bar> / of_int d"
      using False assms(1) by (intro floor_log2_le) simp_all
    then have "(2 :: rat) powi (floor_log2 \<bar>n\<bar> d) * (2 powi e * 2 powi (- int p))
                 \<le> of_int \<bar>n\<bar> / of_int d * (2 powi e * 2 powi (- int p))"
      by (intro mult_right_mono) simp_all
    also have "\<dots> = \<bar>x\<bar> * 2 powi (- int p)"
      using assms(1) by (simp add: x_def abs_mult)
    finally have "(2 :: rat) powi (floor_log2 \<bar>n\<bar> d) * (2 powi e * 2 powi (- int p))
                    \<le> \<bar>x\<bar> * 2 powi (- int p)" .
    moreover have "(2 :: rat) powi (u - 1)
                     = 2 powi (floor_log2 \<bar>n\<bar> d) * (2 powi e * 2 powi (- int p))"
    proof -
      have "(2 :: rat) powi (floor_log2 \<bar>n\<bar> d + e + (- int p))
              = 2 powi (floor_log2 \<bar>n\<bar> d + e) * 2 powi (- int p)"
        by (rule power_int_add) simp
      also have "(2 :: rat) powi (floor_log2 \<bar>n\<bar> d + e)
              = 2 powi (floor_log2 \<bar>n\<bar> d) * 2 powi e"
        by (rule power_int_add) simp
      finally show ?thesis
        unfolding u by (simp only: mult.assoc)
    qed
    ultimately have "(2 :: rat) powi (u - 1) \<le> \<bar>x\<bar> * 2 powi (- int p)"
      by (simp only:)
    then show ?thesis by (simp add: le_max_iff_disj)
  qed
  with err show ?thesis by (rule order_trans)
qed

lemma round64_error:
  assumes "0 < d"
  shows "\<bar>valof (round64 n d e) - of_int n / of_int d * 2 powi e\<bar>
           \<le> (\<bar>of_int n / of_int d * 2 powi e\<bar> + 1) / 2 ^ 53"
proof -
  let ?x = "(of_int n / of_int d * 2 powi e :: rat)"
  have a: "(2 :: rat) powi (- int 53) = 1 / 2 ^ 53"
    by (simp add: power_int_def field_simps)
  have "(2 :: rat) powi (- 1074 - 1) \<le> 2 powi (- int 53)"
    by (intro power_int_increasing) simp_all
  then have b: "(2 :: rat) powi (- 1074 - 1) \<le> 1 / 2 ^ 53"
    by (simp only: a)
  have "\<bar>valof (round64 n d e) - ?x\<bar> \<le> max (\<bar>?x\<bar> * 2 powi (- int 53)) (2 powi (- 1074 - 1))"
    unfolding round64_def using assms by (rule round_ratio_error)
  also have "\<dots> \<le> \<bar>?x\<bar> * (1 / 2 ^ 53) + 1 / 2 ^ 53"
    unfolding a using b by (simp add: max_def)
  finally show ?thesis
    by (simp add: field_simps)
qed

lemma shl_valof:
  assumes "e0 \<le> e"
  shows "(of_int (shl m (e - e0)) :: rat) * 2 powi e0 = of_int m * 2 powi e"
proof -
  have "(2 :: rat) ^ nat (e - e0) = 2 powi (e - e0)"
    using assms by (simp add: power_int_def)
  then have "(of_int (shl m (e - e0)) :: rat) * 2 powi e0 = of_int m * (2 powi (e - e0) * 2 powi e0)"
    by (simp add: shl_eq)
  also have "(2 :: rat) powi (e - e0) * 2 powi e0 = 2 powi (e - e0 + e0)"
    by (rule power_int_add [symmetric]) simp
  finally show ?thesis by simp
qed

lemma f64_mul_error:
  "\<bar>valof (f64_mul a b) - valof a * valof b\<bar> \<le> (\<bar>valof a * valof b\<bar> + 1) / 2 ^ 53"
proof -
  have "(of_int (mantissa a * mantissa b) / of_int 1 * 2 powi (exponent a + exponent b) :: rat)
          = valof a * valof b"
    by (simp add: valof_def power_int_add)
  with round64_error [of 1 "mantissa a * mantissa b" "exponent a + exponent b"]
  show ?thesis
    by (simp add: f64_mul_def)
qed

lemma f64_add_error:
  "\<bar>valof (f64_add a b) - (valof a + valof b)\<bar> \<le> (\<bar>valof a + valof b\<bar> + 1) / 2 ^ 53"
proof -
  define e0 where "e0 = min (exponent a) (exponent b)"
  define n where "n = shl (mantissa a) (exponent a - e0) + shl (mantissa b) (exponent b - e0)"
  have "(of_int n :: rat) * 2 powi e0
          = of_int (shl (mantissa a) (exponent a - e0)) * 2 powi e0
            + of_int (shl (mantissa b) (exponent b - e0)) * 2 powi e0"
    by (simp add: n_def algebra_simps)
  also have "\<dots> = valof a + valof b"
    by (simp add: shl_valof e0_def valof_def)
  finally have "(of_int n / of_int 1 * 2 powi e0 :: rat) = valof a + valof b"
    by simp
  moreover have "f64_add a b = round64 n 1 e0"
    by (simp add: f64_add_def Let_def n_def e0_def)
  ultimately show ?thesis
    using round64_error [of 1 n e0] by simp
qed

lemma f64_div_error:
  assumes "mantissa b \<noteq> 0"
  shows "\<bar>valof (f64_div a b) - valof a / valof b\<bar> \<le> (\<bar>valof a / valof b\<bar> + 1) / 2 ^ 53"
proof (cases "0 < mantissa b")
  case True
  have "(of_int (mantissa a) / of_int (mantissa b) * 2 powi (exponent a - exponent b) :: rat)
          = valof a / valof b"
    by (simp add: valof_def power_int_diff)
  moreover have "f64_div a b = round64 (mantissa a) (mantissa b) (exponent a - exponent b)"
    using True by (simp add: f64_div_def)
  ultimately show ?thesis
    using round64_error [OF True, of "mantissa a" "exponent a - exponent b"] by (simp only:)
next
  case False
  with assms have neg: "0 < - mantissa b" by simp
  have "(of_int (- mantissa a) / of_int (- mantissa b) * 2 powi (exponent a - exponent b) :: rat)
          = valof a / valof b"
    by (simp add: valof_def power_int_diff)
  moreover have "f64_div a b = round64 (- mantissa a) (- mantissa b) (exponent a - exponent b)"
    using False by (simp add: f64_div_def)
  ultimately show ?thesis
    using round64_error [OF neg, of "- mantissa a" "exponent a - exponent b"] by (simp only:)
qed

lemma f_less_iff: "f_less a b \<longleftrightarrow> valof a < valof b"
proof -
  define e0 where "e0 = min (exponent a) (exponent b)"
  have a: "valof a = of_int (shl (mantissa a) (exponent a - e0)) * 2 powi e0"
    by (simp add: shl_valof e0_def valof_def)
  have b: "valof b = of_int (shl (mantissa b) (exponent b - e0)) * 2 powi e0"
    by (simp add: shl_valof e0_def valof_def)
  have "(0 :: rat) < 2 powi e0" by simp
  then have "valof a < valof b
               \<longleftrightarrow> shl (mantissa a) (exponent a - e0) < shl (mantissa b) (exponent b - e0)"
    unfolding a b by (simp only: mult_less_cancel_right_pos of_int_less_iff)
  then show ?thesis
    by (simp add: f_less_def Let_def e0_def)
qed

lemma float64_of_int_small:
  "map float64_of_int [0, 1, 2, 3, 4, 5, 6, 7]
     = [Dyadic 0 0, Dyadic 1 0, Dyadic 1 1, Dyadic 3 0, Dyadic 1 2, Dyadic 5 0, Dyadic 3 1, Dyadic 7 0]"
  by code_simp

lemma valof_float64_of_int:
  assumes "k \<in> {0, 1, 2, 3, 4, 5, 6, 7}"
  shows "valof (float64_of_int k) = of_int k \<and> (k \<noteq> 0 \<longrightarrow> mantissa (float64_of_int k) \<noteq> 0)"
  using assms float64_of_int_small by (auto simp: valof_Dyadic)

lemma three_roundings:
  fixes p1 p2 s q x0 x1 ra rb rn :: rat
  assumes x: "0 \<le> x0" "x0 \<le> 1" "0 \<le> x1" "x1 \<le> 1"
    and w: "0 \<le> ra" "0 \<le> rb" "ra + rb = rn" "rn = 5 \<or> rn = 7"
    and p1: "\<bar>p1 - ra * x0\<bar> \<le> (\<bar>ra * x0\<bar> + 1) / 2 ^ 53"
    and p2: "\<bar>p2 - rb * x1\<bar> \<le> (\<bar>rb * x1\<bar> + 1) / 2 ^ 53"
    and s: "\<bar>s - (p1 + p2)\<bar> \<le> (\<bar>p1 + p2\<bar> + 1) / 2 ^ 53"
    and q: "\<bar>q - s / rn\<bar> \<le> (\<bar>s / rn\<bar> + 1) / 2 ^ 53"
  shows "\<bar>q - (ra * x0 + rb * x1) / rn\<bar> \<le> 1 / 2 ^ 50"
proof -
  define A where "A = ra * x0"
  define B where "B = rb * x1"
  have A: "0 \<le> A" "A \<le> ra"
    using x w by (simp_all add: A_def mult_left_le)
  have B: "0 \<le> B" "B \<le> rb"
    using x w by (simp_all add: B_def mult_left_le)
  have rn: "ra + rb \<le> 7"
    using w by auto
  have p1': "\<bar>p1 - A\<bar> \<le> (A + 1) / 2 ^ 53"
    using p1 A by (simp add: A_def)
  have p2': "\<bar>p2 - B\<bar> \<le> (B + 1) / 2 ^ 53"
    using p2 B by (simp add: B_def)
  have e: "(2 :: rat) ^ 53 = 9007199254740992"
    by simp
  have p1'': "\<bar>p1 - A\<bar> \<le> 8 / 9007199254740992"
  proof -
    have "(A + 1) / 2 ^ 53 \<le> 8 / 9007199254740992"
    proof -
      have "A + 1 \<le> 8" "B + 1 \<le> 8"
        using A B w(1,2) rn by linarith+
      then show ?thesis
        unfolding e by simp_all
    qed
    with p1' show ?thesis by simp
  qed
  have p2'': "\<bar>p2 - B\<bar> \<le> 8 / 9007199254740992"
  proof -
    have "(B + 1) / 2 ^ 53 \<le> 8 / 9007199254740992"
    proof -
      have "A + 1 \<le> 8" "B + 1 \<le> 8"
        using A B w(1,2) rn by linarith+
      then show ?thesis
        unfolding e by simp_all
    qed
    with p2' show ?thesis by simp
  qed
  have sum: "\<bar>p1 + p2\<bar> \<le> 8"
    using p1'' p2'' A B rn by linarith
  have s1: "\<bar>s - (p1 + p2)\<bar> \<le> 9 / 9007199254740992"
  proof -
    have "(\<bar>p1 + p2\<bar> + 1) / 2 ^ 53 \<le> 9 / 9007199254740992"
      using sum unfolding e by simp
    with s show ?thesis by simp
  qed
  have s2: "\<bar>s - (A + B)\<bar> \<le> 25 / 9007199254740992"
    using s1 p1'' p2'' by linarith
  have s3: "\<bar>s\<bar> \<le> 8"
    using s2 A B rn by linarith
  from w(4) show ?thesis
  proof
    assume n: "rn = 5"
    have "\<bar>s / 5\<bar> \<le> 2"
      using s3 by simp
    then have "(\<bar>s / 5\<bar> + 1) / 2 ^ 53 \<le> 3 / 9007199254740992"
      unfolding e by simp
    with q have "\<bar>q - s / 5\<bar> \<le> 3 / 9007199254740992"
      unfolding n by simp
    moreover have "\<bar>s / 5 - (A + B) / 5\<bar> \<le> 5 / 9007199254740992"
    proof -
      have "s / 5 - (A + B) / 5 = (s - (A + B)) / 5"
        by (simp add: diff_divide_distrib)
      then have "\<bar>s / 5 - (A + B) / 5\<bar> = \<bar>s - (A + B)\<bar> / 5"
        by (simp only: abs_divide abs_numeral)
      with s2 show ?thesis by simp
    qed
    ultimately have "\<bar>q - (A + B) / 5\<bar> \<le> 8 / 9007199254740992"
      by linarith
    then show ?thesis
      unfolding n A_def B_def by simp
  next
    assume n: "rn = 7"
    have "\<bar>s / 7\<bar> \<le> 2"
      using s3 by simp
    then have "(\<bar>s / 7\<bar> + 1) / 2 ^ 53 \<le> 3 / 9007199254740992"
      unfolding e by simp
    with q have "\<bar>q - s / 7\<bar> \<le> 3 / 9007199254740992"
      unfolding n by simp
    moreover have "\<bar>s / 7 - (A + B) / 7\<bar> \<le> 5 / 9007199254740992"
    proof -
      have "s / 7 - (A + B) / 7 = (s - (A + B)) / 7"
        by (simp add: diff_divide_distrib)
      then have "\<bar>s / 7 - (A + B) / 7\<bar> = \<bar>s - (A + B)\<bar> / 7"
        by (simp only: abs_divide abs_numeral)
      with s2 show ?thesis by simp
    qed
    ultimately have "\<bar>q - (A + B) / 7\<bar> \<le> 8 / 9007199254740992"
      by linarith
    then show ?thesis
      unfolding n A_def B_def by simp
  qed
qed

lemma interpolation_error:
  fixes a b n :: int
  assumes v: "0 \<le> valof c0" "valof c0 \<le> 1" "0 \<le> valof c1" "valof c1 \<le> 1"
    and w: "a \<in> {1, 2, 3, 4, 5, 6}" "b \<in> {1, 2, 3, 4, 5, 6}" "a + b = n" "n = 5 \<or> n = 7"
  shows "\<bar>valof (f64_div (f64_add (f64_mul (float64_of_int a) c0) (f64_mul (float64_of_int b) c1))
                         (float64_of_int n))
          - (of_int a * valof c0 + of_int b * valof c1) / of_int n\<bar> \<le> 1 / 2 ^ 50"
proof -
  have a: "valof (float64_of_int a) = of_int a"
    using w(1) valof_float64_of_int [of a] by auto
  have b: "valof (float64_of_int b) = of_int b"
    using w(2) valof_float64_of_int [of b] by auto
  have n: "valof (float64_of_int n) = of_int n" "mantissa (float64_of_int n) \<noteq> 0"
    using w(4) valof_float64_of_int [of n] by auto
  let ?p1 = "f64_mul (float64_of_int a) c0"
  let ?p2 = "f64_mul (float64_of_int b) c1"
  let ?s = "f64_add ?p1 ?p2"
  let ?q = "f64_div ?s (float64_of_int n)"
  have p1: "\<bar>valof ?p1 - of_int a * valof c0\<bar> \<le> (\<bar>of_int a * valof c0\<bar> + 1) / 2 ^ 53"
    using f64_mul_error [of "float64_of_int a" c0] by (simp only: a)
  have p2: "\<bar>valof ?p2 - of_int b * valof c1\<bar> \<le> (\<bar>of_int b * valof c1\<bar> + 1) / 2 ^ 53"
    using f64_mul_error [of "float64_of_int b" c1] by (simp only: b)
  have s: "\<bar>valof ?s - (valof ?p1 + valof ?p2)\<bar> \<le> (\<bar>valof ?p1 + valof ?p2\<bar> + 1) / 2 ^ 53"
    by (rule f64_add_error)
  have q: "\<bar>valof ?q - valof ?s / of_int n\<bar> \<le> (\<bar>valof ?s / of_int n\<bar> + 1) / 2 ^ 53"
    using f64_div_error [OF n(2), of ?s] by (simp only: n(1))
  have ra: "(0 :: rat) \<le> of_int a" and rb: "(0 :: rat) \<le> of_int b"
    using w(1,2) by auto
  have rn: "(of_int a + of_int b :: rat) = of_int n"
    using w(3) by (metis of_int_add)
  have rn': "(of_int n :: rat) = 5 \<or> (of_int n :: rat) = 7"
    using w(4) by auto
  show ?thesis
    using v ra rb rn rn' p1 p2 s q by (rule three_roundings)
qed

text \<open>
  C3 (palette entries). For \<open>c0\<close> and \<open>c1\<close> in \<open>[0, 1]\<close>, \<^verbatim>\<open>generatePalette\<close> gives 8
  entries, the entries 0 and 1 being \<open>c0\<close> and \<open>c1\<close> themselves. For \<open>c0 > c1\<close> the entry
  \<open>k = 2..7\<close> is the \<^verbatim>\<open>float64\<close> expression \<open>((7 - k + 1) * c0 + (k - 1) * c1) / 7\<close>, and its
  value is within \<open>2 ^ - 50\<close> of that weighted mean computed exactly; otherwise the entry
  \<open>k = 2..5\<close> is \<open>((5 - k + 1) * c0 + (k - 1) * c1) / 5\<close>, the weights (4,1), (3,2), (2,3),
  (1,4), with the same bound, and the entries 6 and 7 are 0 and 1. The comparison and the
  bound are on the values the floats denote.
\<close>

theorem generatePalette_entries:
  assumes "0 \<le> valof c0" "valof c0 \<le> 1" "0 \<le> valof c1" "valof c1 \<le> 1"
  shows "length (generatePalette c0 c1) = 8
   \<and> generatePalette c0 c1 ! 0 = c0 \<and> generatePalette c0 c1 ! 1 = c1
   \<and> (valof c1 < valof c0 \<longrightarrow>
        (\<forall>k\<in>{2..7}.
           generatePalette c0 c1 ! k
             = f64_div (f64_add (f64_mul (float64_of_int (7 - int k + 1)) c0)
                                (f64_mul (float64_of_int (int k - 1)) c1))
                       (float64_of_int 7)
           \<and> \<bar>valof (generatePalette c0 c1 ! k)
                - (of_int (7 - int k + 1) * valof c0 + of_int (int k - 1) * valof c1) / 7\<bar>
               \<le> 1 / 2 ^ 50))
   \<and> (valof c0 \<le> valof c1 \<longrightarrow>
        (\<forall>k\<in>{2..5}.
           generatePalette c0 c1 ! k
             = f64_div (f64_add (f64_mul (float64_of_int (5 - int k + 1)) c0)
                                (f64_mul (float64_of_int (int k - 1)) c1))
                       (float64_of_int 5)
           \<and> \<bar>valof (generatePalette c0 c1 ! k)
                - (of_int (5 - int k + 1) * valof c0 + of_int (int k - 1) * valof c1) / 5\<bar>
               \<le> 1 / 2 ^ 50)
        \<and> generatePalette c0 c1 ! 6 = Dyadic 0 0 \<and> valof (generatePalette c0 c1 ! 6) = 0
        \<and> generatePalette c0 c1 ! 7 = Dyadic 1 0 \<and> valof (generatePalette c0 c1 ! 7) = 1)"
proof -
  have k7: "{2..7} = {2, 3, 4, 5, 6, 7 :: nat}"
    by auto
  have k5: "{2..5} = {2, 3, 4, 5 :: nat}"
    by auto
  have c: "float64_of_int 0 = Dyadic 0 0" "float64_of_int 1 = Dyadic 1 0"
    using float64_of_int_small by simp_all
  have e7: "\<bar>valof (f64_div (f64_add (f64_mul (float64_of_int a) c0) (f64_mul (float64_of_int b) c1))
                         (float64_of_int 7))
             - (of_int a * valof c0 + of_int b * valof c1) / 7\<bar> \<le> 1 / 2 ^ 50"
    if "a \<in> {1, 2, 3, 4, 5, 6}" "b \<in> {1, 2, 3, 4, 5, 6}" "a + b = 7" for a b :: int
    using interpolation_error [OF assms that] by simp
  have e5: "\<bar>valof (f64_div (f64_add (f64_mul (float64_of_int a) c0) (f64_mul (float64_of_int b) c1))
                         (float64_of_int 5))
             - (of_int a * valof c0 + of_int b * valof c1) / 5\<bar> \<le> 1 / 2 ^ 50"
    if "a \<in> {1, 2, 3, 4, 5, 6}" "b \<in> {1, 2, 3, 4, 5, 6}" "a + b = 5" for a b :: int
    using interpolation_error [OF assms that] by simp
  have gt: "\<forall>k\<in>{2..7}.
           generatePalette c0 c1 ! k
             = f64_div (f64_add (f64_mul (float64_of_int (7 - int k + 1)) c0)
                                (f64_mul (float64_of_int (int k - 1)) c1))
                       (float64_of_int 7)
           \<and> \<bar>valof (generatePalette c0 c1 ! k)
                - (of_int (7 - int k + 1) * valof c0 + of_int (int k - 1) * valof c1) / 7\<bar>
               \<le> 1 / 2 ^ 50" if "valof c1 < valof c0"
    unfolding k7 using that e7 [of 6 1] e7 [of 5 2] e7 [of 4 3] e7 [of 3 4] e7 [of 2 5] e7 [of 1 6]
    by (simp add: generatePalette_def f_less_iff)
  have le: "\<forall>k\<in>{2..5}.
           generatePalette c0 c1 ! k
             = f64_div (f64_add (f64_mul (float64_of_int (5 - int k + 1)) c0)
                                (f64_mul (float64_of_int (int k - 1)) c1))
                       (float64_of_int 5)
           \<and> \<bar>valof (generatePalette c0 c1 ! k)
                - (of_int (5 - int k + 1) * valof c0 + of_int (int k - 1) * valof c1) / 5\<bar>
               \<le> 1 / 2 ^ 50" if "valof c0 \<le> valof c1"
    unfolding k5 using that e5 [of 4 1] e5 [of 3 2] e5 [of 2 3] e5 [of 1 4]
    by (simp add: generatePalette_def f_less_iff not_less [symmetric])
  have fixed: "generatePalette c0 c1 ! 6 = Dyadic 0 0 \<and> valof (generatePalette c0 c1 ! 6) = 0
        \<and> generatePalette c0 c1 ! 7 = Dyadic 1 0 \<and> valof (generatePalette c0 c1 ! 7) = 1"
    if "valof c0 \<le> valof c1"
    using that by (simp add: generatePalette_def f_less_iff c valof_Dyadic)
  note g = gt [THEN impI [of "valof c1 < valof c0"]]
  note l = conjI [OF le fixed, THEN impI [of "valof c0 \<le> valof c1"]]
  have "length (generatePalette c0 c1) = 8
     \<and> generatePalette c0 c1 ! 0 = c0 \<and> generatePalette c0 c1 ! 1 = c1"
    by (simp add: generatePalette_def)
  with g l show ?thesis
    by (elim conjE) (intro conjI; assumption)
qed

lemma normalize_250_10:
  "normalize_byte 250 = Dyadic 8830587504648031 (- 53)
   \<and> normalize_byte 10 = Dyadic 1412894000743685 (- 55)"
  by code_simp

lemma interpolation_250_10:
  "f64_div (f64_add (f64_mul (float64_of_int 5) (Dyadic 8830587504648031 (- 53)))
                    (f64_mul (float64_of_int 2) (Dyadic 1412894000743685 (- 55))))
           (float64_of_int 7) = Dyadic 3204241751686571 (- 52)
   \<and> f64_div (f64_add (f64_mul (float64_of_int 3) (Dyadic 1412894000743685 (- 55)))
                      (f64_mul (float64_of_int 2) (Dyadic 8830587504648031 (- 53))))
             (float64_of_int 5) = Dyadic 3744169101970765 (- 53)"
  by code_simp

theorem generatePalette_entries_witness:
  "generatePalette (normalize_byte 250) (normalize_byte 10) ! 3 = Dyadic 3204241751686571 (- 52)
   \<and> \<bar>valof (generatePalette (normalize_byte 250) (normalize_byte 10) ! 3)
        - (5 * valof (normalize_byte 250) + 2 * valof (normalize_byte 10)) / 7\<bar> \<le> 1 / 2 ^ 50
   \<and> generatePalette (normalize_byte 10) (normalize_byte 250) ! 3 = Dyadic 3744169101970765 (- 53)
   \<and> \<bar>valof (generatePalette (normalize_byte 10) (normalize_byte 250) ! 3)
        - (3 * valof (normalize_byte 10) + 2 * valof (normalize_byte 250)) / 5\<bar> \<le> 1 / 2 ^ 50
   \<and> generatePalette (normalize_byte 10) (normalize_byte 250) ! 6 = Dyadic 0 0
   \<and> generatePalette (normalize_byte 10) (normalize_byte 250) ! 7 = Dyadic 1 0"
proof -
  let ?hi = "normalize_byte 250" and ?lo = "normalize_byte 10"
  have hi: "0 \<le> valof ?hi" "valof ?hi \<le> 1"
    by (simp_all add: normalize_250_10 valof_Dyadic power_int_minus)
  have lo: "0 \<le> valof ?lo" "valof ?lo \<le> 1"
    by (simp_all add: normalize_250_10 valof_Dyadic power_int_minus)
  have lt: "valof ?lo < valof ?hi"
    by (simp add: normalize_250_10 valof_Dyadic power_int_minus)
  have three7: "(3 :: nat) \<in> {2..7}" and three5: "(3 :: nat) \<in> {2..5}"
    by simp_all
  note down = generatePalette_entries [OF hi lo, THEN conjunct2, THEN conjunct2, THEN conjunct2,
      THEN conjunct1, THEN mp, OF lt, THEN bspec, OF three7]
  note up = generatePalette_entries [OF lo hi, THEN conjunct2, THEN conjunct2, THEN conjunct2,
      THEN conjunct2, THEN mp, OF less_imp_le [OF lt]]
  note up3 = up [THEN conjunct1, THEN bspec, OF three5]
  have d1: "generatePalette ?hi ?lo ! 3 = Dyadic 3204241751686571 (- 52)"
    using down [THEN conjunct1] interpolation_250_10 by (simp add: normalize_250_10)
  have d2: "\<bar>valof (generatePalette ?hi ?lo ! 3) - (5 * valof ?hi + 2 * valof ?lo) / 7\<bar> \<le> 1 / 2 ^ 50"
    using down [THEN conjunct2] by simp
  have u1: "generatePalette ?lo ?hi ! 3 = Dyadic 3744169101970765 (- 53)"
    using up3 [THEN conjunct1] interpolation_250_10 by (simp add: normalize_250_10)
  have u2: "\<bar>valof (generatePalette ?lo ?hi ! 3) - (3 * valof ?lo + 2 * valof ?hi) / 5\<bar> \<le> 1 / 2 ^ 50"
    using up3 [THEN conjunct2] by simp
  have u6: "generatePalette ?lo ?hi ! 6 = Dyadic 0 0"
    using up by simp
  have u7: "generatePalette ?lo ?hi ! 7 = Dyadic 1 0"
    using up by simp
  from d1 d2 u1 u2 u6 u7 show ?thesis
    by (intro conjI)
qed

text \<open>
  C6 (block sizes). \<^verbatim>\<open>compressBlock\<close> returns 16 bytes; \<^verbatim>\<open>decompressBlock\<close> fails with the
  panic "invalid block size" on an input that is not of 16 bytes, and returns an image of
  bounds (0,0)-(4,4) on every input of 16 bytes.
\<close>

theorem block_size_invariants:
  "length (compressBlock blk) = 16
   \<and> (length d1 \<noteq> 16 \<longrightarrow> decompressBlock nb d1 bm = Inl InvalidBlockSize)
   \<and> (length d2 = 16 \<longrightarrow> (\<exists>img. decompressBlock nb d2 bm = Inr img \<and> Bounds img = image_Rect 0 0 4 4))"
  using decompressBlock_ok [of d2 nb bm]
  by (simp add: length_compressBlock decompressBlock_def)

theorem block_size_invariants_witness:
  "length (compressBlock (NewRGBA (image_Rect 0 0 4 4))) = 16
   \<and> length ([] :: u8 list) \<noteq> 16
   \<and> decompressBlock (\<lambda>_ _. 0) [] Zero = Inl InvalidBlockSize
   \<and> length (replicate 16 (0 :: u8)) = 16
   \<and> (\<exists>img. decompressBlock (\<lambda>_ _. 0) (replicate 16 0) Zero = Inr img
          \<and> Bounds img = image_Rect 0 0 4 4)"
  using block_size_invariants [of "NewRGBA (image_Rect 0 0 4 4)" "[]" "\<lambda>_ _. 0" Zero "replicate 16 0"]
  by simp

text \<open>
  C9 (blue and alpha are not read). Two blocks that agree on the red and the green value of
  each of the 16 pixels are compressed to the same bytes.
\<close>

theorem compressBlock_ignores_blue_alpha:
  assumes "\<And>x y. 0 \<le> x \<Longrightarrow> x < 4 \<Longrightarrow> 0 \<le> y \<Longrightarrow> y < 4 \<Longrightarrow>
             R (RGBAAt b1 x y) = R (RGBAAt b2 x y) \<and> G (RGBAAt b1 x y) = G (RGBAAt b2 x y)"
  shows "compressBlock b1 = compressBlock b2"
proof (rule compressBlock_cong)
  show "map R (blockPixels b1) = map R (blockPixels b2)"
    using assms by (simp add: blockPixels_def scanOrder_eq)
  show "map G (blockPixels b1) = map G (blockPixels b2)"
    using assms by (simp add: blockPixels_def scanOrder_eq)
qed

theorem compressBlock_ignores_blue_alpha_witness:
  "compressBlock \<lparr>Pix = (\<lambda>_. \<lparr>R = 9, G = 8, B = 0, A = 0\<rparr>), Bounds = image_Rect 0 0 4 4\<rparr>
   = compressBlock \<lparr>Pix = (\<lambda>p. \<lparr>R = 9, G = 8, B = 7, A = if fst p = 0 then 5 else 255\<rparr>), Bounds = image_Rect 0 0 4 4\<rparr>"
  by (rule compressBlock_ignores_blue_alpha) (simp add: RGBAAt_def)

text \<open>
  C10 (palette lookups). On an input of 16 bytes both calls of \<^verbatim>\<open>getIndices\<close> succeed, every
  index they give is in \<open>[0, 7]\<close>, and for every blue mode the colour of each of the 16
  pixels is computed without an index out of range, so that \<^verbatim>\<open>decompressBlock\<close> returns.
\<close>

theorem decompressBlock_palette_lookups_in_range:
  assumes "length d = 16"
  shows "\<exists>ri gi. getIndices (take 6 (drop 2 d)) = Inr ri \<and> getIndices (drop 10 d) = Inr gi
           \<and> (\<forall>i\<in>set ri. 0 \<le> i \<and> i < 8) \<and> (\<forall>i\<in>set gi. 0 \<le> i \<and> i < 8)
           \<and> (\<forall>k<16. \<exists>c. pixelColour nb bm
                   (generatePalette (normalize_byte (d ! 0)) (normalize_byte (d ! 1)))
                   (generatePalette (normalize_byte (d ! 8)) (normalize_byte (d ! 9))) ri gi k = Inr c)
           \<and> (\<exists>img. decompressBlock nb d bm = Inr img)"
proof -
  obtain ri where ri: "getIndices (take 6 (drop 2 d)) = Inr ri" "length ri = 16"
      "\<forall>i\<in>set ri. 0 \<le> i \<and> i < 8"
    using getIndices_ok [of "take 6 (drop 2 d)"] assms by auto
  obtain gi where gi: "getIndices (drop 10 d) = Inr gi" "length gi = 16"
      "\<forall>i\<in>set gi. 0 \<le> i \<and> i < 8"
    using getIndices_ok [of "drop 10 d"] assms by auto
  let ?r = "generatePalette (normalize_byte (d ! 0)) (normalize_byte (d ! 1))"
  let ?g = "generatePalette (normalize_byte (d ! 8)) (normalize_byte (d ! 9))"
  have "\<forall>k<16. \<exists>c. pixelColour nb bm ?r ?g ri gi k = Inr c"
  proof (intro allI impI)
    fix k :: nat assume "k < 16"
    then have k: "k < length ri" "k < length gi"
      using ri(2) gi(2) by simp_all
    from pixelColour_ok [OF length_generatePalette length_generatePalette k ri(3) gi(3)]
    show "\<exists>c. pixelColour nb bm ?r ?g ri gi k = Inr c" by blast
  qed
  moreover have "\<exists>img. decompressBlock nb d bm = Inr img"
    using decompressBlock_ok [OF assms] by blast
  ultimately show ?thesis using ri gi by blast
qed

theorem decompressBlock_palette_lookups_in_range_witness:
  "length (replicate 16 (255 :: u8)) = 16
   \<and> (\<exists>ri gi. getIndices (take 6 (drop 2 (replicate 16 255))) = Inr ri
          \<and> getIndices (drop 10 (replicate 16 255)) = Inr gi
          \<and> (\<exists>img. decompressBlock (\<lambda>_ _. 0) (replicate 16 255) Greyscale = Inr img))"
  using decompressBlock_palette_lookups_in_range [of "replicate 16 255" "\<lambda>_ _. 0" Greyscale]
  by auto

section \<open>Properties of the image operations and of the wire format\<close>

lemma upt4: "[0..<4] = [0, 1, 2, 3]"
  by (simp add: upt_rec)

lemma Uint32_PutUint32: "Uint32 (PutUint32 w) = w"
proof (rule bit_word_eqI)
  fix n assume "n < LENGTH(32)"
  then have n: "n < 32" by simp
  have "n < 8 \<or> (8 \<le> n \<and> n < 16) \<or> (16 \<le> n \<and> n < 24) \<or> (24 \<le> n \<and> n < 32)"
    using n by linarith
  then show "bit (Uint32 (PutUint32 w)) n = bit w n"
    by (auto simp: Uint32_def PutUint32_def upt4 bit_simps)
qed

lemma PutUint32_Uint32:
  "PutUint32 (Uint32 [a, b, c, d]) = [a, b, c, d]"
proof -
  let ?w = "Uint32 [a, b, c, d]"
  have "ucast (drop_bit 24 ?w) = a"
    by (rule bit_word_eqI) (auto simp: Uint32_def bit_simps dest: bit_imp_le_length)
  moreover have "ucast (drop_bit 16 ?w) = b"
    by (rule bit_word_eqI) (auto simp: Uint32_def bit_simps dest: bit_imp_le_length)
  moreover have "ucast (drop_bit 8 ?w) = c"
    by (rule bit_word_eqI) (auto simp: Uint32_def bit_simps dest: bit_imp_le_length)
  moreover have "ucast ?w = d"
    by (rule bit_word_eqI) (auto simp: Uint32_def bit_simps dest: bit_imp_le_length)
  ultimately show ?thesis
    by (simp add: PutUint32_def upt4)
qed

lemma length_PutUint32: "length (PutUint32 w) = 4"
  by (simp add: PutUint32_def)

lemma Uint32_inj:
  assumes "length xs = 4" "length ys = 4" "Uint32 xs = Uint32 ys"
  shows "xs = ys"
proof -
  obtain a b c d where xs: "xs = [a, b, c, d]"
    using assms(1) by (auto simp: length_Suc_conv eval_nat_numeral)
  obtain a' b' c' d' where ys: "ys = [a', b', c', d']"
    using assms(2) by (auto simp: length_Suc_conv eval_nat_numeral)
  have "PutUint32 (Uint32 xs) = PutUint32 (Uint32 ys)"
    using assms(3) by simp
  then show ?thesis
    unfolding xs ys PutUint32_Uint32 .
qed

lemma Encode_Buffer_Write:
  "Encode Buffer_Write img buf =
     (None, buf @ PutUint32 (strToDword ''BC5 '')
                @ PutUint32 (word_of_int (X (Rectangle_Size (Rect img))))
                @ PutUint32 (word_of_int (Y (Rectangle_Size (Rect img))))
                @ Data img)"
  by (simp add: Encode_def Buffer_Write_def length_PutUint32)

lemma Decode_header:
  assumes "d \<noteq> []"
  shows "Decode (Inr (PutUint32 (strToDword ''BC5 '') @ PutUint32 w @ PutUint32 h @ d))
           = Inr \<lparr>Data = d, Rect = image_Rect 0 0 (uint w) (uint h), BlueMode = 0\<rparr>"
proof -
  let ?bs = "PutUint32 (strToDword ''BC5 '') @ PutUint32 w @ PutUint32 h @ d"
  have len: "length ?bs = 12 + length d"
    by (simp add: length_PutUint32)
  have t1: "take 4 ?bs = PutUint32 (strToDword ''BC5 '')"
    by (simp add: length_PutUint32)
  have t2: "take 4 (drop 4 ?bs) = PutUint32 w"
    by (simp add: length_PutUint32)
  have t3: "take 4 (drop 8 ?bs) = PutUint32 h"
    by (simp add: length_PutUint32)
  have t4: "drop 12 ?bs = d"
    by (simp add: length_PutUint32)
  have "\<not> length ?bs < 13"
    using assms len by (cases d) auto
  then show ?thesis
    unfolding Decode_def using len
    by (simp only: sum.case t1 t2 t3 t4 Uint32_PutUint32 Let_def) simp
qed

lemma Size_image_Rect:
  "0 \<le> w \<Longrightarrow> 0 \<le> h \<Longrightarrow> Rectangle_Size (image_Rect 0 0 w h) = \<lparr>X = w, Y = h\<rparr>"
  by (simp add: Rectangle_Size_def image_Rect_def)

lemma uint_word_of_int_32:
  "0 \<le> n \<Longrightarrow> n < 2 ^ 32 \<Longrightarrow> uint (word_of_int n :: u32) = n"
  by (simp add: uint_word_of_int take_bit_int_eq_self)

text \<open>
  C7 (header round trip), as the code has it. \<^verbatim>\<open>Decode\<close> refuses a stream without a byte
  of image data, and \<^verbatim>\<open>Encode\<close> writes each size as a \<^verbatim>\<open>uint32\<close>: encoding into a buffer an
  image whose data is not empty and whose width and height are in \<open>[0, 2 ^ 32)\<close>, and
  decoding the buffer, gives back the width, the height and the data. The length is checked
  before the signature: a stream of at least 12 bytes whose first 4 bytes are not "BC5 " is
  refused with "invalid file signature".
\<close>

theorem header_round_trip:
  "(Data img \<noteq> []
      \<and> 0 \<le> X (Rectangle_Size (Rect img)) \<and> X (Rectangle_Size (Rect img)) < 2 ^ 32
      \<and> 0 \<le> Y (Rectangle_Size (Rect img)) \<and> Y (Rectangle_Size (Rect img)) < 2 ^ 32
    \<longrightarrow> fst (Encode Buffer_Write img []) = None
        \<and> (\<exists>img'. Decode (Inr (snd (Encode Buffer_Write img []))) = Inr img'
              \<and> Rectangle_Size (Rect img') = Rectangle_Size (Rect img)
              \<and> Data img' = Data img))
   \<and> (12 \<le> length bs \<and> take 4 bs \<noteq> map (\<lambda>c. of_nat (of_char c)) ''BC5 ''
    \<longrightarrow> Decode (Inr bs) = Inl InvalidFileSignature)"
proof (intro conjI impI)
  assume a: "Data img \<noteq> []
      \<and> 0 \<le> X (Rectangle_Size (Rect img)) \<and> X (Rectangle_Size (Rect img)) < 2 ^ 32
      \<and> 0 \<le> Y (Rectangle_Size (Rect img)) \<and> Y (Rectangle_Size (Rect img)) < 2 ^ 32"
  show "fst (Encode Buffer_Write img []) = None"
    by (simp add: Encode_Buffer_Write)
  have "Rectangle_Size (image_Rect 0 0 (X (Rectangle_Size (Rect img))) (Y (Rectangle_Size (Rect img))))
          = Rectangle_Size (Rect img)"
    using a by (simp add: Size_image_Rect)
  then show "\<exists>img'. Decode (Inr (snd (Encode Buffer_Write img []))) = Inr img'
              \<and> Rectangle_Size (Rect img') = Rectangle_Size (Rect img)
              \<and> Data img' = Data img"
    using a by (simp add: Encode_Buffer_Write Decode_header uint_word_of_int_32)
next
  assume b: "12 \<le> length bs \<and> take 4 bs \<noteq> map (\<lambda>c. of_nat (of_char c)) ''BC5 ''"
  have "Uint32 (take 4 bs) \<noteq> strToDword ''BC5 ''"
  proof
    assume "Uint32 (take 4 bs) = strToDword ''BC5 ''"
    then have "Uint32 (take 4 bs) = Uint32 (map (\<lambda>c. of_nat (of_char c)) ''BC5 '')"
      by (simp only: strToDword_def)
    moreover have "length (take 4 bs) = 4"
      using b by simp
    ultimately have "take 4 bs = map (\<lambda>c. of_nat (of_char c)) ''BC5 ''"
      by (intro Uint32_inj) simp_all
    with b show False by simp
  qed
  then show "Decode (Inr bs) = Inl InvalidFileSignature"
    using b by (simp add: Decode_def)
qed

theorem header_round_trip_witness:
  "fst (Encode Buffer_Write \<lparr>Data = [1, 2, 3], Rect = image_Rect 0 0 8 4, BlueMode = 2\<rparr> []) = None
   \<and> (\<exists>img'. Decode (Inr (snd (Encode Buffer_Write
                  \<lparr>Data = [1, 2, 3], Rect = image_Rect 0 0 8 4, BlueMode = 2\<rparr> []))) = Inr img'
          \<and> Rectangle_Size (Rect img')
              = Rectangle_Size (Rect \<lparr>Data = [1, 2, 3], Rect = image_Rect 0 0 8 4, BlueMode = 2\<rparr>)
          \<and> Data img' = Data \<lparr>Data = [1, 2, 3], Rect = image_Rect 0 0 8 4, BlueMode = 2\<rparr>)
   \<and> Decode (Inr [0x42, 0x43, 0x35, 0x21, 0, 0, 0, 4, 0, 0, 0, 4, 9]) = Inl InvalidFileSignature"
proof -
  let ?img = "\<lparr>Data = [1, 2, 3], Rect = image_Rect 0 0 8 4, BlueMode = 2\<rparr>"
  let ?bs = "[0x42, 0x43, 0x35, 0x21, 0, 0, 0, 4, 0, 0, 0, 4, 9] :: u8 list"
  have sz: "Rectangle_Size (Rect ?img) = \<lparr>X = 8, Y = 4\<rparr>"
    by (simp add: Rectangle_Size_def image_Rect_def)
  have h1: "Data ?img \<noteq> []
      \<and> 0 \<le> X (Rectangle_Size (Rect ?img)) \<and> X (Rectangle_Size (Rect ?img)) < 2 ^ 32
      \<and> 0 \<le> Y (Rectangle_Size (Rect ?img)) \<and> Y (Rectangle_Size (Rect ?img)) < 2 ^ 32"
    unfolding sz by simp
  have h2: "12 \<le> length ?bs \<and> take 4 ?bs \<noteq> map (\<lambda>c. of_nat (of_char c)) ''BC5 ''"
    by simp
  note rt = header_round_trip [of ?img ?bs]
  note c1 = rt [THEN conjunct1, THEN mp, OF h1]
  note c2 = rt [THEN conjunct2, THEN mp, OF h2]
  show ?thesis
    by (rule conjI [OF conjunct1 [OF c1] conjI [OF conjunct2 [OF c1] c2]])
qed

text \<open>
  C7 as stated fails: the image without data is encoded, and the 12 bytes are refused with
  "no image data found"; a width of \<open>2 ^ 32\<close> comes back as 0; and the 4 bytes "ABCD",
  which differ from the signature, are refused with "not enough data for BC5".
\<close>

theorem header_round_trip_counterexample:
  "fst (Encode Buffer_Write \<lparr>Data = [], Rect = image_Rect 0 0 0 0, BlueMode = 0\<rparr> []) = None
   \<and> Decode (Inr (snd (Encode Buffer_Write \<lparr>Data = [], Rect = image_Rect 0 0 0 0, BlueMode = 0\<rparr> [])))
       = Inl NoImageDataFound
   \<and> Decode (Inr (snd (Encode Buffer_Write
                \<lparr>Data = [7], Rect = image_Rect 0 0 4294967296 4, BlueMode = 0\<rparr> [])))
       = Inr \<lparr>Data = [7], Rect = image_Rect 0 0 0 4, BlueMode = 0\<rparr>
   \<and> take 4 [0x41, 0x42, 0x43, 0x44 :: u8] \<noteq> map (\<lambda>c. of_nat (of_char c)) ''BC5 ''
   \<and> Decode (Inr [0x41, 0x42, 0x43, 0x44]) = Inl NotEnoughData"
  by code_simp

text \<open>
  C8 (query out of bounds). For a coordinate outside of the image, \<^verbatim>\<open>At\<close> returns the zero
  colour before it touches the data: no error, no panic.
\<close>

theorem At_out_of_bounds:
  "x < 0 \<or> x \<ge> X (Rectangle_Size (Rect b)) \<or> y < 0 \<or> y \<ge> Y (Rectangle_Size (Rect b))
   \<Longrightarrow> At normalB b x y = Inr \<lparr>R = 0, G = 0, B = 0, A = 0\<rparr>"
  by (simp add: At_def zeroRGBA_def)

theorem At_out_of_bounds_witness:
  "At (\<lambda>_ _. 0) \<lparr>Data = [], Rect = image_Rect 0 0 8 8, BlueMode = 0\<rparr> (- 1) 0
     = Inr \<lparr>R = 0, G = 0, B = 0, A = 0\<rparr>
   \<and> At (\<lambda>_ _. 0) \<lparr>Data = [], Rect = image_Rect 0 0 8 8, BlueMode = 0\<rparr> 8 0
     = Inr \<lparr>R = 0, G = 0, B = 0, A = 0\<rparr>"
proof -
  let ?b = "\<lparr>Data = [], Rect = image_Rect 0 0 8 8, BlueMode = 0\<rparr>"
  have "At (\<lambda>_ _. 0) ?b (- 1) 0 = Inr \<lparr>R = 0, G = 0, B = 0, A = 0\<rparr>"
    by (rule At_out_of_bounds) simp
  moreover have "At (\<lambda>_ _. 0) ?b 8 0 = Inr \<lparr>R = 0, G = 0, B = 0, A = 0\<rparr>"
    by (rule At_out_of_bounds) (simp add: Rectangle_Size_def image_Rect_def)
  ultimately show ?thesis by (rule conjI)
qed

section \<open>Properties of compression and decompression of whole images\<close>

lemma RGBAAt_SetRGBA:
  "RGBAAt (SetRGBA img x0 y0 c) x y =
     (if x = x0 \<and> y = y0 \<and> Point_In \<lparr>X = x0, Y = y0\<rparr> (Bounds img) then c else RGBAAt img x y)"
  by (simp add: RGBAAt_def SetRGBA_def)








lemma untileLoop_at:
  assumes "\<forall>(x, y)\<in>set ps. 0 \<le> untile_blockIx sx x y \<and> untile_blockIx sx x y < int (length blocks)"
  shows "\<exists>out. untileLoop blocks sx ps rgba = Inr out \<and> Bounds out = Bounds rgba
           \<and> (\<forall>x y. RGBAAt out x y =
                 (if (x, y) \<in> set ps \<and> Point_In \<lparr>X = x, Y = y\<rparr> (Bounds rgba)
                  then RGBAAt (blocks ! nat (untile_blockIx sx x y)) (go_mod x 4) (go_mod y 4)
                  else RGBAAt rgba x y))"
  using assms
proof (induction ps arbitrary: rgba)
  case Nil
  then show ?case by simp
next
  case (Cons p ps)
  obtain x0 y0 where p: "p = (x0, y0)" by (cases p)
  let ?v = "RGBAAt (blocks ! nat (untile_blockIx sx x0 y0)) (go_mod x0 4) (go_mod y0 4)"
  let ?rgba1 = "SetRGBA rgba x0 y0 ?v"
  have ok: "0 \<le> untile_blockIx sx x0 y0 \<and> untile_blockIx sx x0 y0 < int (length blocks)"
    using Cons.prems by (simp add: p)
  have "\<forall>(x, y)\<in>set ps. 0 \<le> untile_blockIx sx x y \<and> untile_blockIx sx x y < int (length blocks)"
    using Cons.prems by simp
  from Cons.IH [OF this, of ?rgba1]
  obtain out where out: "untileLoop blocks sx ps ?rgba1 = Inr out" "Bounds out = Bounds rgba"
      "\<forall>x y. RGBAAt out x y =
                 (if (x, y) \<in> set ps \<and> Point_In \<lparr>X = x, Y = y\<rparr> (Bounds rgba)
                  then RGBAAt (blocks ! nat (untile_blockIx sx x y)) (go_mod x 4) (go_mod y 4)
                  else RGBAAt ?rgba1 x y)"
    by auto
  have "untileLoop blocks sx (p # ps) rgba = Inr out"
    using ok out(1) by (simp add: p Let_def)
  moreover have "RGBAAt out x y =
                 (if (x, y) \<in> set (p # ps) \<and> Point_In \<lparr>X = x, Y = y\<rparr> (Bounds rgba)
                  then RGBAAt (blocks ! nat (untile_blockIx sx x y)) (go_mod x 4) (go_mod y 4)
                  else RGBAAt rgba x y)" for x y
    using out(3) by (auto simp: p RGBAAt_SetRGBA)
  ultimately show ?case using out(2) by blast
qed

lemma collect_Inr:
  "\<forall>x\<in>set xs. \<exists>v. x = Inr v \<Longrightarrow> collect xs = Inr (map projr xs)"
  by (induction xs) auto

lemma int_float32_div4_small:
  "map int_float32_div4 [0, 1, 2, 3, 4, 5, 6, 7] = [0, 0, 0, 0, 1, 1, 1, 1]"
  by code_simp

lemma untile_blockIx_8:
  assumes "0 \<le> x" "x < 8" "0 \<le> y" "y < 8"
  shows "untile_blockIx 8 x y = 2 * (y div 4) + x div 4"
proof -
  have d: "int_float32_div4 v = v div 4" if "0 \<le> v" "v < 8" for v
  proof -
    from that have "v \<in> {0, 1, 2, 3, 4, 5, 6, 7}" by auto
    then show ?thesis using int_float32_div4_small by auto
  qed
  have "go_div (y div 4 * 8) 4 = 2 * (y div 4)"
    using assms by (simp add: go_div_def sgn_if)
  then show ?thesis
    using assms by (simp add: untile_blockIx_def d)
qed

lemma go_mod_4: "0 \<le> x \<Longrightarrow> go_mod x 4 = x mod 4"
  by (simp add: go_mod_def go_div_def sgn_if minus_mult_div_eq_mod)

lemma in_points:
  "(x, y) \<in> set (concat (map (\<lambda>y. map (\<lambda>x. (x, y)) [0..w - 1]) [0..h - 1]))
     \<longleftrightarrow> 0 \<le> x \<and> x < w \<and> 0 \<le> y \<and> y < h"
  by (auto simp: image_iff)



lemma upt_0_4: "[0..<4] = [0, 1, 2, 3]"
  by (simp add: upt_rec)

lemma Decompress_8x8:
  assumes rect: "Rect b = image_Rect 0 0 8 8" and len: "length (Data b) = 64"
  shows "\<exists>out blocks. Decompress nb b = Inr out \<and> length blocks = 4
           \<and> (\<forall>i<4. decompressBlock nb (take 16 (drop (i * 16) (Data b))) (BlueMode b) = Inr (blocks ! i))
           \<and> (\<forall>x y. 0 \<le> x \<and> x < 8 \<and> 0 \<le> y \<and> y < 8 \<longrightarrow>
                 RGBAAt out x y = RGBAAt (blocks ! nat (2 * (y div 4) + x div 4)) (x mod 4) (y mod 4))"
proof -
  let ?f = "\<lambda>i. decompressBlock nb (take 16 (drop (i * 16) (Data b))) (BlueMode b)"
  let ?blocks = "map projr (map ?f [0..<4])"
  have each: "\<exists>v. ?f i = Inr v" if "i < 4" for i
  proof -
    have "length (take 16 (drop (i * 16) (Data b))) = 16"
      using that len by auto
    from decompressBlock_ok [OF this] show ?thesis by blast
  qed
  have "\<forall>x\<in>set (map ?f [0..<4]). \<exists>v. x = Inr v"
    using each by auto
  then have col: "collect (map ?f [0..<4]) = Inr ?blocks"
    by (rule collect_Inr)
  have blk: "\<forall>i<4. ?f i = Inr (?blocks ! i)"
  proof (intro allI impI)
    fix i :: nat assume i: "i < 4"
    from each [OF i] obtain v where v: "?f i = Inr v" ..
    have "?blocks ! i = projr (?f i)"
      using i by simp
    with v show "?f i = Inr (?blocks ! i)" by simp
  qed
  have sz: "Rectangle_Size (Rect b) = \<lparr>X = 8, Y = 8\<rparr>"
    by (simp add: rect Rectangle_Size_def image_Rect_def)
  let ?ps = "concat (map (\<lambda>y. map (\<lambda>x. (x, y)) [0..8 - 1]) [0..8 - 1])"
  have rng: "\<forall>(x, y)\<in>set ?ps. 0 \<le> untile_blockIx 8 x y \<and> untile_blockIx 8 x y < int (length ?blocks)"
  proof (clarify)
    fix x y assume "(x, y) \<in> set ?ps"
    then have xy: "0 \<le> x" "x < 8" "0 \<le> y" "y < 8"
      unfolding in_points by simp_all
    then have "0 \<le> y div 4" "y div 4 \<le> 1" "0 \<le> x div 4" "x div 4 \<le> 1"
      by simp_all
    then show "0 \<le> untile_blockIx 8 x y \<and> untile_blockIx 8 x y < int (length ?blocks)"
      using xy by (simp add: untile_blockIx_8)
  qed
  from untileLoop_at [OF rng, of "NewRGBA (Rect b)"]
  obtain out where out: "untileLoop ?blocks 8 ?ps (NewRGBA (Rect b)) = Inr out"
      "\<forall>x y. RGBAAt out x y =
                 (if (x, y) \<in> set ?ps \<and> Point_In \<lparr>X = x, Y = y\<rparr> (Bounds (NewRGBA (Rect b)))
                  then RGBAAt (?blocks ! nat (untile_blockIx 8 x y)) (go_mod x 4) (go_mod y 4)
                  else RGBAAt (NewRGBA (Rect b)) x y)"
    by blast
  have dec: "Decompress nb b = Inr out"
    using out(1) col by (simp add: Decompress_def len sz)
  have px: "RGBAAt out x y = RGBAAt (?blocks ! nat (2 * (y div 4) + x div 4)) (x mod 4) (y mod 4)"
    if xy: "0 \<le> x" "x < 8" "0 \<le> y" "y < 8" for x y
  proof -
    have "(x, y) \<in> set ?ps"
      unfolding in_points using xy by simp
    moreover have "Point_In \<lparr>X = x, Y = y\<rparr> (Bounds (NewRGBA (Rect b)))"
      using xy by (simp add: NewRGBA_def rect Point_In_def image_Rect_def)
    ultimately have "RGBAAt out x y = RGBAAt (?blocks ! nat (untile_blockIx 8 x y)) (go_mod x 4) (go_mod y 4)"
      using out(2) by simp
    then show ?thesis
      using xy by (simp add: untile_blockIx_8 go_mod_4)
  qed
  have "length ?blocks = 4" by simp
  with dec blk px show ?thesis by blast
qed



lemma scanOrder_range: "(x, y) \<in> set scanOrder \<Longrightarrow> 0 \<le> x \<and> x < 4 \<and> 0 \<le> y \<and> y < 4"
  by (auto simp: scanOrder_def)

lemma blockPixels_makeBlock:
  assumes "Bounds img = image_Rect 0 0 8 8"
    and "bx \<in> {0, 1}" "by \<in> {0, 1}"
    and "\<And>x y. 0 \<le> x \<Longrightarrow> x < 4 \<Longrightarrow> 0 \<le> y \<Longrightarrow> y < 4 \<Longrightarrow>
           P (RGBAAt img (bx * 4 + x) (by * 4 + y))"
  shows "\<forall>c\<in>set (blockPixels (makeBlock img bx by)). P c"
proof
  fix c assume "c \<in> set (blockPixels (makeBlock img bx by))"
  then obtain x y where xy: "(x, y) \<in> set scanOrder" and c: "c = RGBAAt (makeBlock img bx by) x y"
    by (auto simp: blockPixels_def)
  from scanOrder_range [OF xy] have r: "0 \<le> x" "x < 4" "0 \<le> y" "y < 4" by simp_all
  have b: "0 \<le> bx" "bx * 4 + 4 \<le> 8" "0 \<le> by" "by * 4 + 4 \<le> 8"
    using assms(2,3) by auto
  have "c = RGBAAt img (bx * 4 + x) (by * 4 + y)"
    unfolding c using assms(1) b r by (rule makeBlock_at)
  moreover have "P (RGBAAt img (bx * 4 + x) (by * 4 + y))"
    using r by (rule assms(4))
  ultimately show "P c" by simp
qed











lemma blockPixels_corner:
  "blockPixels corner_block =
     \<lparr>R = 0, G = 0, B = 0, A = 255\<rparr> # replicate 15 \<lparr>R = 255, G = 255, B = 0, A = 255\<rparr>"
  by code_simp

lemma minmax_corner:
  "foldl minmax_step (255, 0, 255, 0)
     (\<lparr>R = 0, G = 0, B = 0, A = 255\<rparr> # replicate 15 \<lparr>R = 255, G = 255, B = 0, A = 255\<rparr>)
   = (0, 255, 0, 255)"
  by code_simp

lemma nearest_0_255_0:
  "nearest (generatePalette (normalize_byte 0) (normalize_byte 255)) 0 = 0"
  by code_simp

lemma nearest_0_255_255:
  "nearest (generatePalette (normalize_byte 0) (normalize_byte 255)) 255 = 1"
  by code_simp

lemma corner_index_bytes:
  "drop 2 (PutUint64 (accumulateIndices (0 # replicate 15 1))) = [0x04, 0x92, 0x49, 0x24, 0x92, 0x49]"
  by code_simp

lemma generatePalette_0: "generatePalette c0 c1 ! 0 = c0"
  by (simp add: generatePalette_def)

lemma generatePalette_1: "generatePalette c0 c1 ! 1 = c1"
  by (simp add: generatePalette_def)

lemma compressBlock_corner:
  "compressBlock corner_block =
     [0, 255, 0x04, 0x92, 0x49, 0x24, 0x92, 0x49, 0, 255, 0x04, 0x92, 0x49, 0x24, 0x92, 0x49]"
proof -
  let ?pal = "generatePalette (normalize_byte 0) (normalize_byte 255)"
  let ?px = "\<lparr>R = 0, G = 0, B = 0, A = 255\<rparr> # replicate 15 \<lparr>R = 255, G = 255, B = 0, A = 255\<rparr>"
  have ir: "map (\<lambda>c. nearest ?pal (R c)) ?px = 0 # replicate 15 1"
    by (simp add: nearest_0_255_0 nearest_0_255_255)
  have ig: "map (\<lambda>c. nearest ?pal (G c)) ?px = 0 # replicate 15 1"
    by (simp add: nearest_0_255_0 nearest_0_255_255)
  show ?thesis
    unfolding compressBlock_def blockPixels_corner Let_def minmax_corner prod.case ir ig
      corner_index_bytes generatePalette_0 generatePalette_1 denormalize_0 denormalize_255
    by (simp only: append.simps)
qed

lemma decompress_corner:
  "map_sum id (\<lambda>out. (R (RGBAAt out 0 0), R (RGBAAt out 3 3)))
     (decompressBlock (\<lambda>_ _. 0)
        [0, 255, 0x04, 0x92, 0x49, 0x24, 0x92, 0x49, 0, 255, 0x04, 0x92, 0x49, 0x24, 0x92, 0x49] Zero)
   = Inr (255, 0)"
  by code_simp

text \<open>
  C2 (block round trip), evaluated on \<open>corner_block\<close>. Its pixel (0,0) holds the least
  red value 0 and its pixel (3,3) the greatest, 255. After \<^verbatim>\<open>compressBlock\<close> and
  \<^verbatim>\<open>decompressBlock\<close> the pixel (0,0) has red 255 and the pixel (3,3) has red 0: the indices
  come back in the opposite order (C1), so the block is turned by half a turn.
\<close>

theorem block_round_trip_turns_block:
  "R (RGBAAt corner_block 0 0) = 0 \<and> R (RGBAAt corner_block 3 3) = 255
   \<and> map_sum id (\<lambda>out. (R (RGBAAt out 0 0), R (RGBAAt out 3 3)))
        (decompressBlock (\<lambda>_ _. 0) (compressBlock corner_block) Zero) = Inr (255, 0)"
proof -
  have "R (RGBAAt corner_block 0 0) = 0 \<and> R (RGBAAt corner_block 3 3) = 255"
    by code_simp
  then show ?thesis
    unfolding compressBlock_corner decompress_corner by simp
qed

lemma two_tone_compressed: "NewBC5FromRGBA two_tone_image = Inr two_tone_bc5"
proof -
  have bounds: "Bounds two_tone_image = image_Rect 0 0 8 8"
    by (simp add: two_tone_image_def)
  have top: "compressBlock (makeBlock two_tone_image bx 0) = replicate 16 0" if "bx \<in> {0, 1}" for bx
  proof -
    have "0 \<in> {0, 1 :: int}" by simp
    have "\<forall>c\<in>set (blockPixels (makeBlock two_tone_image bx 0)). R c = 0 \<and> G c = 0"
    proof (rule blockPixels_makeBlock [OF bounds that \<open>0 \<in> {0, 1}\<close>])
      fix x y :: int assume "0 \<le> x" "x < 4" "0 \<le> y" "y < 4"
      with that show "R (RGBAAt two_tone_image (bx * 4 + x) (0 * 4 + y)) = 0
          \<and> G (RGBAAt two_tone_image (bx * 4 + x) (0 * 4 + y)) = 0"
        by (auto simp: two_tone_image_def RGBAAt_def Point_In_def image_Rect_def)
    qed
    from compressBlock_solid [OF this] show ?thesis
      by (simp only: denormalize_0) (simp add: eval_nat_numeral)
  qed
  have bot: "compressBlock (makeBlock two_tone_image bx 1)
               = [255, 255, 0, 0, 0, 0, 0, 0, 255, 255, 0, 0, 0, 0, 0, 0]" if "bx \<in> {0, 1}" for bx
  proof -
    have "1 \<in> {0, 1 :: int}" by simp
    have "\<forall>c\<in>set (blockPixels (makeBlock two_tone_image bx 1)). R c = 255 \<and> G c = 255"
    proof (rule blockPixels_makeBlock [OF bounds that \<open>1 \<in> {0, 1}\<close>])
      fix x y :: int assume "0 \<le> x" "x < 4" "0 \<le> y" "y < 4"
      with that show "R (RGBAAt two_tone_image (bx * 4 + x) (1 * 4 + y)) = 255
          \<and> G (RGBAAt two_tone_image (bx * 4 + x) (1 * 4 + y)) = 255"
        by (auto simp: two_tone_image_def RGBAAt_def Point_In_def image_Rect_def)
    qed
    from compressBlock_solid [OF this] show ?thesis
      by (simp only: denormalize_255)
  qed
  have sz: "Rectangle_Size (Bounds two_tone_image) = \<lparr>X = 8, Y = 8\<rparr>"
    by (simp add: bounds Rectangle_Size_def image_Rect_def)
  have gm: "go_mod 8 4 = 0"
    by (simp add: go_mod_4)
  have "SetFromRGBA newBC5 two_tone_image =
          Inr (newBC5\<lparr>Data := replicate 16 0 @ replicate 16 0
                  @ [255, 255, 0, 0, 0, 0, 0, 0, 255, 255, 0, 0, 0, 0, 0, 0]
                  @ [255, 255, 0, 0, 0, 0, 0, 0, 255, 255, 0, 0, 0, 0, 0, 0],
                Rect := Bounds two_tone_image\<rparr>)"
    by (simp add: SetFromRGBA_def sz gm makeBlocks_8x8 [OF bounds] top bot)
  then show ?thesis
    by (simp add: NewBC5FromRGBA_def bounds newBC5_def two_tone_bc5_def replicate_add [symmetric])
qed

lemma At_two_tone: "At (\<lambda>_ _. 0) two_tone_bc5 0 4 = Inr \<lparr>R = 0, G = 0, B = 0, A = 1\<rparr>"
  by code_simp

lemma decompress_white:
  "map_sum id (\<lambda>im. RGBAAt im 0 0)
     (decompressBlock (\<lambda>_ _. 0) [255, 255, 0, 0, 0, 0, 0, 0, 255, 255, 0, 0, 0, 0, 0, 0] 0)
   = Inr \<lparr>R = 255, G = 255, B = 0, A = 1\<rparr>"
  by code_simp

lemma Decompress_two_tone:
  "map_sum id (\<lambda>out. RGBAAt out 0 4) (Decompress (\<lambda>_ _. 0) two_tone_bc5)
     = Inr \<lparr>R = 255, G = 255, B = 0, A = 1\<rparr>"
proof -
  have rect: "Rect two_tone_bc5 = image_Rect 0 0 8 8" and len: "length (Data two_tone_bc5) = 64"
    by (simp_all add: two_tone_bc5_def)
  from Decompress_8x8 [OF rect len, of "\<lambda>_ _. 0"]
  obtain out blocks where out: "Decompress (\<lambda>_ _. 0) two_tone_bc5 = Inr out"
      "\<forall>i<4. decompressBlock (\<lambda>_ _. 0) (take 16 (drop (i * 16) (Data two_tone_bc5)))
                (BlueMode two_tone_bc5) = Inr (blocks ! i)"
      "\<forall>x y. 0 \<le> x \<and> x < 8 \<and> 0 \<le> y \<and> y < 8 \<longrightarrow>
                 RGBAAt out x y = RGBAAt (blocks ! nat (2 * (y div 4) + x div 4)) (x mod 4) (y mod 4)"
    by blast
  from out(3) have "RGBAAt out 0 4 = RGBAAt (blocks ! 2) 0 0"
    by simp
  moreover have "decompressBlock (\<lambda>_ _. 0) (take 16 (drop (2 * 16) (Data two_tone_bc5)))
                (BlueMode two_tone_bc5) = Inr (blocks ! 2)"
    using out(2) [rule_format, of 2] by simp
  then have "decompressBlock (\<lambda>_ _. 0) [255, 255, 0, 0, 0, 0, 0, 0, 255, 255, 0, 0, 0, 0, 0, 0] 0
               = Inr (blocks ! 2)"
    by (simp add: two_tone_bc5_def)
  then have "RGBAAt (blocks ! 2) 0 0 = \<lparr>R = 255, G = 255, B = 0, A = 1\<rparr>"
    using decompress_white by simp
  ultimately show ?thesis
    by (simp add: out(1))
qed

text \<open>
  C5 (point query against full decompression), evaluated on \<open>two_tone_image\<close>. At the
  point (0,4) \<^verbatim>\<open>Decompress\<close> reads the block 2, at the bytes 32 to 47, and gives red and
  green 255; \<^verbatim>\<open>At\<close> computes the offset \<open>1 * 8 + 0 * 16 = 8\<close> and decodes the bytes 8 to 23,
  which lie across the blocks 0 and 1, and gives red and green 0.
\<close>

theorem At_differs_from_Decompress:
  "NewBC5FromRGBA two_tone_image = Inr two_tone_bc5
   \<and> At (\<lambda>_ _. 0) two_tone_bc5 0 4 = Inr \<lparr>R = 0, G = 0, B = 0, A = 1\<rparr>
   \<and> map_sum id (\<lambda>out. RGBAAt out 0 4) (Decompress (\<lambda>_ _. 0) two_tone_bc5)
       = Inr \<lparr>R = 255, G = 255, B = 0, A = 1\<rparr>"
  using two_tone_compressed At_two_tone Decompress_two_tone by (intro conjI)

end
